theory Spec2Isabelle
  imports Main
begin

section \<open>Python values shared by the whole model\<close>

text \<open>
  The exceptions the code of \<^verbatim>\<open>fluff/__init__.py\<close> can raise or let through.
  Both \<^verbatim>\<open>raise NotImplementedError(...)\<close> of \<^verbatim>\<open>Calculator.__init__\<close> are
  one constructor; its argument keeps what the message says (which check failed, and for the
  second check the emitter names that the message joins with commas).
\<close>

datatype init_message =
    WindowMustBeTimedelta
  | EmittersNotCovered "string list"

datatype py_error =
    KeyError
  | AttributeError
  | TypeError
  | OverflowError
  | AssertionError
  | NotImplementedError init_message
  | EmitterTypeError string
  | ResourceNotFound
  | OtherError string

text \<open>
  A Python \<^verbatim>\<open>dict\<close> is an association list: its order is the dict's iteration order
  (arbitrary in Python 2, but fixed for one dict), its keys are pairwise different.
  A Python \<^verbatim>\<open>set\<close> of names is a list without duplicates, again in iteration order.
  The theorems below speak about \<open>set\<close> of such lists, so they do not depend on the order.
\<close>

type_synonym ('k, 'v) dict = "('k \<times> 'v) list"

definition keys :: "('k, 'v) dict \<Rightarrow> 'k list" where
  "keys d = map fst d"

text \<open>\<^verbatim>\<open>d[k]\<close>: a missing key raises \<^verbatim>\<open>KeyError\<close>.\<close>

definition getitem :: "('k, 'v) dict \<Rightarrow> 'k \<Rightarrow> py_error + 'v" where
  "getitem d k = (case map_of d k of None \<Rightarrow> Inl KeyError | Some v \<Rightarrow> Inr v)"

text \<open>A \<^verbatim>\<open>for\<close> loop that appends one result per element and stops at the first exception.\<close>

fun for_each :: "('a \<Rightarrow> py_error + 'b) \<Rightarrow> 'a list \<Rightarrow> py_error + 'b list" where
  "for_each f [] = Inr []"
| "for_each f (x # xs) =
     (case f x of
        Inl e \<Rightarrow> Inl e
      | Inr y \<Rightarrow> (case for_each f xs of Inl e \<Rightarrow> Inl e | Inr ys \<Rightarrow> Inr (y # ys)))"


section \<open>Emitter and filter tags, \<^verbatim>\<open>CalculatorMeta\<close>\<close>

text \<open>
  A class attribute as \<^verbatim>\<open>CalculatorMeta.__new__\<close> sees it: only the two marks the
  decorators leave on a function matter. \<^verbatim>\<open>getattr(f, '_fluff_emitter', None)\<close> is
  \<open>None\<close> for an attribute without the mark.
\<close>

record attr =
  fluff_emitter :: "string option"
  fluff_filter :: bool

definition plain_attr :: attr where
  "plain_attr = \<lparr>fluff_emitter = None, fluff_filter = False\<rparr>"

definition date_emitter :: "attr \<Rightarrow> attr" where
  "date_emitter fn = fn\<lparr>fluff_emitter := Some ''date''\<rparr>"

definition null_emitter :: "attr \<Rightarrow> attr" where
  "null_emitter fn = fn\<lparr>fluff_emitter := Some ''null''\<rparr>"

definition post_process :: "attr \<Rightarrow> attr" where
  "post_process fn = fn\<lparr>fluff_emitter := Some ''delayed''\<rparr>"

definition filter_by :: "attr \<Rightarrow> attr" where
  "filter_by fn = fn\<lparr>fluff_filter := True\<rparr>"

text \<open>Truth value of \<^verbatim>\<open>getattr(attrs[attr], '_fluff_emitter', None)\<close>: a non-empty string.\<close>

definition has_emitter_tag :: "attr \<Rightarrow> bool" where
  "has_emitter_tag a = (case fluff_emitter a of None \<Rightarrow> False | Some t \<Rightarrow> t \<noteq> [])"

text \<open>
  A class of the running program. A class made by \<^verbatim>\<open>CalculatorMeta\<close> carries its name,
  its bases, the two merged name sets and the counter value it was given. Every other class
  (\<^verbatim>\<open>object\<close>, a mixin) is \<open>PlainClass\<close>: a class below a calculator class has the
  metaclass too, so a plain class has no calculator class among its ancestors.
\<close>

datatype pyclass =
    CalcClass string "pyclass list" "string list" "string list" nat
  | PlainClass string

fun is_CalculatorMeta :: "pyclass \<Rightarrow> bool" where
  "is_CalculatorMeta (CalcClass n bs es fs k) = True"
| "is_CalculatorMeta (PlainClass n) = False"

fun cls_bases :: "pyclass \<Rightarrow> pyclass list" where
  "cls_bases (CalcClass n bs es fs k) = bs"
| "cls_bases (PlainClass n) = []"

fun fluff_emitters :: "pyclass \<Rightarrow> string list" where
  "fluff_emitters (CalcClass n bs es fs k) = es"
| "fluff_emitters (PlainClass n) = []"

fun fluff_filters :: "pyclass \<Rightarrow> string list" where
  "fluff_filters (CalcClass n bs es fs k) = fs"
| "fluff_filters (PlainClass n) = []"

fun cls_counter :: "pyclass \<Rightarrow> nat" where
  "cls_counter (CalcClass n bs es fs k) = k"
| "cls_counter (PlainClass n) = 0"

text \<open>The first loop of \<^verbatim>\<open>__new__\<close>: the names of the class body that carry a mark.\<close>

definition own_emitters :: "(string, attr) dict \<Rightarrow> string list" where
  "own_emitters attrs =
     fold (\<lambda>(name, a) emitters. if has_emitter_tag a then List.insert name emitters else emitters)
       attrs []"

definition own_filters :: "(string, attr) dict \<Rightarrow> string list" where
  "own_filters attrs =
     fold (\<lambda>(name, a) filters. if fluff_filter a then List.insert name filters else filters)
       attrs []"

text \<open>The second loop: \<^verbatim>\<open>emitters.update(parent._fluff_emitters)\<close> for every parent.\<close>

definition inherit :: "(pyclass \<Rightarrow> string list) \<Rightarrow> pyclass list \<Rightarrow> string list \<Rightarrow> string list" where
  "inherit names parents own = fold (\<lambda>parent acc. fold List.insert (names parent) acc) parents own"

text \<open>
  \<^verbatim>\<open>CalculatorMeta.__new__(mcs, name, bases, attrs)\<close>. The metaclass's own counter is
  passed in and returned incremented.
\<close>

definition meta_new ::
    "nat \<Rightarrow> string \<Rightarrow> pyclass list \<Rightarrow> (string, attr) dict \<Rightarrow> pyclass \<times> nat" where
  "meta_new mcs_counter name bases attrs =
     (let parents = filter is_CalculatorMeta bases;
          emitters = inherit fluff_emitters parents (own_emitters attrs);
          filters = inherit fluff_filters parents (own_filters attrs)
      in (CalcClass name bases emitters filters mcs_counter, mcs_counter + 1))"

text \<open>The calculator classes of a program: each one was made by the metaclass, and so were its calculator bases.\<close>

inductive created :: "pyclass \<Rightarrow> bool" where
  created_new:
    "(\<And>p. p \<in> set bases \<Longrightarrow> is_CalculatorMeta p \<Longrightarrow> created p) \<Longrightarrow>
     created (fst (meta_new mcs_counter name bases attrs))"

text \<open>A chain of derivation: \<open>derives c a\<close> when \<open>a\<close> is \<open>c\<close> or a base of a base ... of \<open>c\<close>.\<close>

inductive derives :: "pyclass \<Rightarrow> pyclass \<Rightarrow> bool" where
  derives_refl: "derives c c"
| derives_step: "p \<in> set (cls_bases c) \<Longrightarrow> derives p a \<Longrightarrow> derives c a"


section \<open>\<^verbatim>\<open>Calculator\<close>\<close>

text \<open>
  What \<^verbatim>\<open>window\<close> can hold: \<^verbatim>\<open>None\<close>, a \<^verbatim>\<open>datetime.timedelta\<close> (an exact
  number of microseconds, zero being false) or any other object, of which only the truth
  value matters.
\<close>

datatype window_value =
    NoWindow
  | Timedelta int
  | OtherObject bool

fun truthy :: "window_value \<Rightarrow> bool" where
  "truthy NoWindow = False"
| "truthy (Timedelta d) = (d \<noteq> 0)"
| "truthy (OtherObject b) = b"

fun is_timedelta :: "window_value \<Rightarrow> bool" where
  "is_timedelta (Timedelta d) = True"
| "is_timedelta NoWindow = False"
| "is_timedelta (OtherObject b) = False"

text \<open>
  Dates and their arithmetic. \<^verbatim>\<open>get_window\<close> is called with
  \<^verbatim>\<open>datetime.datetime.utcnow().date()\<close>, a \<^verbatim>\<open>datetime.date\<close>: a date is its
  proleptic Gregorian ordinal, from 1 (\<^verbatim>\<open>date.min\<close>) to 3652059 (\<^verbatim>\<open>date.max\<close>).
  \<open>days n\<close> is \<^verbatim>\<open>timedelta(days=n)\<close> in microseconds, and \<open>td_days d\<close> is the
  attribute \<^verbatim>\<open>days\<close> of a timedelta of \<open>d\<close> microseconds (the timedelta is kept
  normalised with its seconds and microseconds not negative, so this is the floor).
  \<^verbatim>\<open>date + timedelta\<close> moves the date by \<^verbatim>\<open>timedelta.days\<close> and ignores the rest,
  \<^verbatim>\<open>date - timedelta\<close> moves it back by \<^verbatim>\<open>timedelta.days\<close>; both raise
  \<^verbatim>\<open>OverflowError\<close> when the result is not a date.
\<close>

definition days :: "int \<Rightarrow> int" where
  "days n = n * 86400000000"

definition td_days :: "int \<Rightarrow> int" where
  "td_days d = d div 86400000000"

definition in_date_range :: "int \<Rightarrow> bool" where
  "in_date_range ordinal \<longleftrightarrow> 0 < ordinal \<and> ordinal \<le> 3652059"

definition date_add :: "int \<Rightarrow> int \<Rightarrow> py_error + int" where
  "date_add date delta =
     (if in_date_range (date + td_days delta) then Inr (date + td_days delta) else Inl OverflowError)"

definition date_sub :: "int \<Rightarrow> int \<Rightarrow> py_error + int" where
  "date_sub date delta =
     (if in_date_range (date - td_days delta) then Inr (date - td_days delta) else Inl OverflowError)"

text \<open>
  The result reader that a \<^verbatim>\<open>delayed\<close> emitter is called with: the calculator's slug and
  the key (the group-by values); the indicator class is passed beside it.
\<close>

record 'g fluff_result =
  calc_name :: string
  key :: "'g list"

text \<open>
  An attribute of a calculator that carries \<^verbatim>\<open>_fluff_emitter\<close>: the mark, what the
  function yields for a source item (\<^verbatim>\<open>calculate\<close> calls it so for the marks
  \<^verbatim>\<open>date\<close> and \<^verbatim>\<open>null\<close>) and what it returns for a result reader
  (\<^verbatim>\<open>_get\<close> calls it so for the mark \<^verbatim>\<open>delayed\<close>). The functions are total and
  pure: an exception inside an emitter or a filter written by the user is outside the model.
\<close>

datatype ('i, 'v, 'g) emitter =
  Emitter string "'i \<Rightarrow> 'v list" "'g fluff_result \<Rightarrow> string list"

fun emitter_mark :: "('i, 'v, 'g) emitter \<Rightarrow> string" where
  "emitter_mark (Emitter mark on_item on_result) = mark"

fun emit :: "('i, 'v, 'g) emitter \<Rightarrow> 'i \<Rightarrow> 'v list" where
  "emit (Emitter mark on_item on_result) item = on_item item"

fun emit_delayed :: "('i, 'v, 'g) emitter \<Rightarrow> 'g fluff_result \<Rightarrow> string list" where
  "emit_delayed (Emitter mark on_item on_result) r = on_result r"

text \<open>
  A calculator class: the class made by \<^verbatim>\<open>CalculatorMeta\<close> (which holds
  \<^verbatim>\<open>_fluff_emitters\<close> and \<^verbatim>\<open>_fluff_filters\<close>), the class attributes
  \<^verbatim>\<open>window\<close> and \<^verbatim>\<open>offsets\<close> (both \<^verbatim>\<open>None\<close> in \<^verbatim>\<open>Calculator\<close>),
  the method \<^verbatim>\<open>filter\<close>, and what \<^verbatim>\<open>getattr(self, slug)\<close> finds: \<open>emitter_attr\<close>
  for a slug used as an emitter (\<open>None\<close> when there is no such attribute or it has no
  \<^verbatim>\<open>_fluff_emitter\<close>), \<open>filter_attr\<close> for a slug called as a filter.
\<close>

record ('i, 'v, 'g) calculator_class =
  meta :: pyclass
  cls_window :: window_value
  cls_offsets :: "(string, int \<times> int) dict option"
  filter_item :: "'i \<Rightarrow> bool"
  emitter_attr :: "string \<rightharpoonup> ('i, 'v, 'g) emitter"
  filter_attr :: "string \<rightharpoonup> ('i \<Rightarrow> bool)"

record ('i, 'v, 'g) calculator =
  klass :: "('i, 'v, 'g) calculator_class"
  window :: window_value
  offsets :: "(string, int \<times> int) dict"

text \<open>
  \<^verbatim>\<open>Calculator.__init__(self, window=None)\<close>, in the order of its statements:
  \<^verbatim>\<open>self.window\<close> after the first \<^verbatim>\<open>if\<close>, \<^verbatim>\<open>self.offsets\<close> after
  \<^verbatim>\<open>self.offsets or {}\<close>, the set \<^verbatim>\<open>emitters_not_covered\<close> after the loop and the
  \<^verbatim>\<open>clear()\<close> (a list in the set's iteration order), and the two checks.
\<close>

definition self_window :: "('i, 'v, 'g) calculator_class \<Rightarrow> window_value \<Rightarrow> window_value" where
  "self_window k window_arg = (if window_arg \<noteq> NoWindow then window_arg else cls_window k)"

definition self_offsets :: "('i, 'v, 'g) calculator_class \<Rightarrow> (string, int \<times> int) dict" where
  "self_offsets k = (case cls_offsets k of None \<Rightarrow> [] | Some d \<Rightarrow> d)"

definition emitters_not_covered :: "('i, 'v, 'g) calculator_class \<Rightarrow> window_value \<Rightarrow> string list" where
  "emitters_not_covered k window_arg =
     (let all_emitters = remdups (fluff_emitters (meta k));
          covered = filter (\<lambda>emitter. emitter \<in> set all_emitters) (remdups (keys (self_offsets k)));
          after_offsets = fold removeAll covered all_emitters
      in if truthy (self_window k window_arg) then [] else after_offsets)"

definition init ::
    "('i, 'v, 'g) calculator_class \<Rightarrow> window_value \<Rightarrow> py_error + ('i, 'v, 'g) calculator" where
  "init k window_arg =
     (if \<not> is_timedelta (self_window k window_arg)
        then Inl (NotImplementedError WindowMustBeTimedelta)
      else if emitters_not_covered k window_arg \<noteq> []
        then Inl (NotImplementedError (EmittersNotCovered (emitters_not_covered k window_arg)))
      else Inr \<lparr>klass = k, window = self_window k window_arg, offsets = self_offsets k\<rparr>)"

text \<open>
  \<^verbatim>\<open>all(getattr(self, slug)(item) for slug in self._fluff_filters)\<close>: it stops at the
  first filter that is false, and a slug that is no attribute raises.
\<close>

fun all_filters :: "(string \<rightharpoonup> ('i \<Rightarrow> bool)) \<Rightarrow> 'i \<Rightarrow> string list \<Rightarrow> py_error + bool" where
  "all_filters attrs item [] = Inr True"
| "all_filters attrs item (slug # slugs) =
     (case attrs slug of
        None \<Rightarrow> Inl AttributeError
      | Some f \<Rightarrow> if f item then all_filters attrs item slugs else Inr False)"

definition passes_filter :: "('i, 'v, 'g) calculator \<Rightarrow> 'i \<Rightarrow> py_error + bool" where
  "passes_filter self item =
     (if filter_item (klass self) item
      then all_filters (filter_attr (klass self)) item (fluff_filters (meta (klass self)))
      else Inr False)"

text \<open>One round of the loop of \<^verbatim>\<open>calculate\<close>: the entry it stores for a slug, if any.\<close>

definition calculate_slug ::
    "('i, 'v, 'g) calculator \<Rightarrow> bool \<Rightarrow> 'i \<Rightarrow> string \<Rightarrow> py_error + (string \<times> 'v list) option" where
  "calculate_slug self passes item slug =
     (case emitter_attr (klass self) slug of
        None \<Rightarrow> Inl AttributeError
      | Some emitter \<Rightarrow>
          if emitter_mark emitter = ''date'' \<or> emitter_mark emitter = ''null''
          then Inr (Some (slug, if passes then emit emitter item else []))
          else Inr None)"

text \<open>\<^verbatim>\<open>Calculator.calculate(self, item)\<close>.\<close>

definition calculate ::
    "('i, 'v, 'g) calculator \<Rightarrow> 'i \<Rightarrow> py_error + (string, 'v list) dict" where
  "calculate self item =
     (case passes_filter self item of
        Inl e \<Rightarrow> Inl e
      | Inr passes \<Rightarrow>
          (case for_each (calculate_slug self passes item) (fluff_emitters (meta (klass self))) of
             Inl e \<Rightarrow> Inl e
           | Inr entries \<Rightarrow> Inr (List.map_filter (\<lambda>entry. entry) entries)))"

text \<open>
  \<^verbatim>\<open>Calculator.get_window(self, now, emitter)\<close>, for a date \<open>now\<close>:
  \<^verbatim>\<open>now + start\<close> is computed before \<^verbatim>\<open>now + end\<close>. Subtracting a window that is
  not a \<^verbatim>\<open>timedelta\<close> is a \<^verbatim>\<open>TypeError\<close>.
\<close>

definition get_window ::
    "('i, 'v, 'g) calculator \<Rightarrow> int \<Rightarrow> string \<Rightarrow> py_error + (int \<times> int)" where
  "get_window self now emitter =
     (case map_of (offsets self) emitter of
        Some (start, end) \<Rightarrow>
          (case date_add now start of
             Inl e \<Rightarrow> Inl e
           | Inr range_start \<Rightarrow>
               (case date_add now end of
                  Inl e \<Rightarrow> Inl e
                | Inr range_end \<Rightarrow> Inr (range_start, range_end)))
      | None \<Rightarrow>
          (case window self of
             Timedelta w \<Rightarrow>
               (case date_sub now w of
                  Inl e \<Rightarrow> Inl e
                | Inr range_start \<Rightarrow> Inr (range_start, now))
           | NoWindow \<Rightarrow> Inl TypeError
           | OtherObject b \<Rightarrow> Inl TypeError))"


section \<open>\<^verbatim>\<open>IndicatorDocument\<close>\<close>

text \<open>
  An indicator class: its \<^verbatim>\<open>__name__\<close>, its \<^verbatim>\<open>_doc_type\<close>, the calculators
  \<^verbatim>\<open>IndicatorDocumentMeta\<close> collected in \<^verbatim>\<open>_calculators\<close>, and the class attribute
  \<^verbatim>\<open>group_by\<close>.
\<close>

record ('i, 'v, 'g) indicator_class =
  cls_name :: string
  cls_doc_type :: string
  cls_calculators :: "(string, ('i, 'v, 'g) calculator) dict"
  cls_group_by :: "string list"

text \<open>
  A source item: \<^verbatim>\<open>item.get_id\<close> and \<^verbatim>\<open>item[attr]\<close>; whatever else the emitters
  read is in the extension of the record.
\<close>

record 'g item =
  get_id :: string
  item_fields :: "string \<rightharpoonup> 'g"

text \<open>
  An indicator document, also the JSON snapshot of one. \<open>state self slug\<close> is
  \<^verbatim>\<open>self[slug]\<close> for a calculator slug: the metaclass makes each slug a dict property of
  the document class, so it is always a dict, empty until computed. \<open>properties\<close> holds the
  other properties that were set (\<^verbatim>\<open>self[attr]\<close> for a name of \<^verbatim>\<open>group_by\<close>); reading
  one that was never set raises (through attribute access, so \<^verbatim>\<open>AttributeError\<close>).
  Slugs and the names of \<^verbatim>\<open>group_by\<close> are taken to be different names.
  A document is never false as a Python value (it always carries its type), so
  \<open>None\<close> of type \<open>indicator_doc option\<close> is the only false \<^verbatim>\<open>other_doc\<close>.
\<close>

record ('v, 'g) indicator_doc =
  couch_id :: string
  doc_id :: "string option"
  group_by :: "string list"
  state :: "string \<Rightarrow> (string, 'v list) dict"
  properties :: "string \<rightharpoonup> 'g"

definition getfield :: "(string \<rightharpoonup> 'g) \<Rightarrow> string \<Rightarrow> py_error + 'g" where
  "getfield fs name = (case fs name of None \<Rightarrow> Inl AttributeError | Some v \<Rightarrow> Inr v)"

text \<open>\<^verbatim>\<open>indicator_class(_id=indicator_id)\<close>: a new document with every property at its default.\<close>

definition new_document :: "('i, 'v, 'g) indicator_class \<Rightarrow> string \<Rightarrow> ('v, 'g) indicator_doc" where
  "new_document cls indicator_id =
     \<lparr>couch_id = indicator_id, doc_id = None, group_by = cls_group_by cls,
      state = (\<lambda>slug. []), properties = Map.empty\<rparr>"

text \<open>The first loop of \<^verbatim>\<open>IndicatorDocument.calculate\<close>.\<close>

fun calculate_all ::
    "(string, ('i, 'v, 'g) calculator) dict \<Rightarrow> 'i \<Rightarrow> ('v, 'g) indicator_doc \<Rightarrow>
     py_error + ('v, 'g) indicator_doc" where
  "calculate_all [] item self = Inr self"
| "calculate_all ((attr, calculator) # rest) item self =
     (case calculate calculator item of
        Inl e \<Rightarrow> Inl e
      | Inr vals \<Rightarrow> calculate_all rest item (self\<lparr>state := (state self)(attr := vals)\<rparr>))"

text \<open>The loop over \<^verbatim>\<open>self.group_by\<close>: \<^verbatim>\<open>self[attr] = item[attr]\<close>.\<close>

fun copy_group_fields ::
    "string list \<Rightarrow> ('g, 'z) item_scheme \<Rightarrow> ('v, 'g) indicator_doc \<Rightarrow>
     py_error + ('v, 'g) indicator_doc" where
  "copy_group_fields [] item self = Inr self"
| "copy_group_fields (attr # rest) item self =
     (case getfield (item_fields item) attr of
        Inl e \<Rightarrow> Inl e
      | Inr v \<Rightarrow> copy_group_fields rest item (self\<lparr>properties := (properties self)(attr \<mapsto> v)\<rparr>))"

text \<open>\<^verbatim>\<open>IndicatorDocument.calculate(self, item)\<close>; the document is returned updated.\<close>

definition doc_calculate ::
    "(('g, 'z) item_scheme, 'v, 'g) indicator_class \<Rightarrow> ('v, 'g) indicator_doc \<Rightarrow>
     ('g, 'z) item_scheme \<Rightarrow> py_error + ('v, 'g) indicator_doc" where
  "doc_calculate cls self item =
     (case calculate_all (cls_calculators cls) item self of
        Inl e \<Rightarrow> Inl e
      | Inr self1 \<Rightarrow>
          (case copy_group_fields (group_by self1) item (self1\<lparr>doc_id := Some (get_id item)\<rparr>) of
             Inl e \<Rightarrow> Inl e
           | Inr self2 \<Rightarrow> Inr (self2\<lparr>group_by := cls_group_by cls\<rparr>)))"

text \<open>The diff descriptor and its entries, with the keys of the source's dicts.\<close>

record 'v indicator_change =
  calculator :: string
  emitter :: string
  emitter_type :: string
  values_diff :: "'v list"

record ('v, 'g) diff_descriptor =
  database :: string
  doc_type :: string
  group_names :: "string list"
  group_values :: "'g list"
  indicator_changes :: "'v indicator_change list"

text \<open>
  \<^verbatim>\<open>_shallow_dict_diff(self, left, right)\<close>. The result is \<^verbatim>\<open>None\<close>, a list of keys
  or a set; the set is a list without duplicates.
\<close>

definition shallow_dict_diff ::
    "(string, 'a) dict \<Rightarrow> (string, 'a) dict \<Rightarrow> string list option" where
  "shallow_dict_diff left right =
     (if left = [] \<and> right = [] then None
      else if left = [] \<or> right = [] then Some (if left \<noteq> [] then keys left else keys right)
      else
        (let left_set = remdups (keys left);
             right_set = remdups (keys right);
             intersect = filter (\<lambda>k. k \<in> set left_set) right_set;
             added = filter (\<lambda>k. k \<notin> set intersect) right_set;
             removed = filter (\<lambda>k. k \<notin> set intersect) left_set;
             changed = filter (\<lambda>k. map_of left k \<noteq> map_of right k) intersect
         in Some (remdups (added @ removed @ changed))))"

text \<open>\<^verbatim>\<open>list(set(xs) - set(ys))\<close>.\<close>

definition set_minus :: "'v list \<Rightarrow> 'v list \<Rightarrow> 'v list" where
  "set_minus xs ys = filter (\<lambda>v. v \<notin> set ys) (remdups xs)"

text \<open>\<^verbatim>\<open>getattr(self._calculators[calc_name], emitter_name)._fluff_emitter\<close>.\<close>

definition emitter_type_of ::
    "('i, 'v, 'g) indicator_class \<Rightarrow> string \<Rightarrow> string \<Rightarrow> py_error + string" where
  "emitter_type_of cls calc emitter_name =
     (case getitem (cls_calculators cls) calc of
        Inl e \<Rightarrow> Inl e
      | Inr c \<Rightarrow>
          (case emitter_attr (klass c) emitter_name of
             None \<Rightarrow> Inl AttributeError
           | Some em \<Rightarrow> Inr (emitter_mark em)))"

text \<open>One round of the loop of \<^verbatim>\<open>_indicator_diff\<close>.\<close>

definition indicator_entry ::
    "('i, 'v, 'g) indicator_class \<Rightarrow> ('v, 'g) indicator_doc \<Rightarrow> string \<Rightarrow>
     ('v, 'g) indicator_doc option \<Rightarrow> string \<Rightarrow> py_error + 'v indicator_change" where
  "indicator_entry cls self calc other_doc emitter_name =
     (case (case other_doc of
              Some other \<Rightarrow>
                (case getitem (state self calc) emitter_name of
                   Inl e \<Rightarrow> Inl e
                 | Inr mine \<Rightarrow>
                     (case getitem (state other calc) emitter_name of
                        Inl e \<Rightarrow> Inl e
                      | Inr theirs \<Rightarrow> Inr (set_minus mine theirs)))
            | None \<Rightarrow> getitem (state self calc) emitter_name) of
        Inl e \<Rightarrow> Inl e
      | Inr vals \<Rightarrow>
          (case emitter_type_of cls calc emitter_name of
             Inl e \<Rightarrow> Inl e
           | Inr mark \<Rightarrow>
               Inr \<lparr>calculator = calc, emitter = emitter_name, emitter_type = mark,
                    values_diff = vals\<rparr>))"

text \<open>\<^verbatim>\<open>_indicator_diff(self, calc_name, emitter_names, other_doc)\<close>.\<close>

definition indicator_diff ::
    "('i, 'v, 'g) indicator_class \<Rightarrow> ('v, 'g) indicator_doc \<Rightarrow> string \<Rightarrow> string list \<Rightarrow>
     ('v, 'g) indicator_doc option \<Rightarrow> py_error + 'v indicator_change list" where
  "indicator_diff cls self calc emitter_names other_doc =
     for_each (indicator_entry cls self calc other_doc) emitter_names"

text \<open>
  The first loop of \<^verbatim>\<open>diff\<close>: what \<^verbatim>\<open>diff_keys\<close> gets for one calculator (the empty
  list when it gets no entry), and \<^verbatim>\<open>diff_keys\<close> itself in the order the entries were made.
\<close>

definition changed_emitters ::
    "('v, 'g) indicator_doc \<Rightarrow> ('v, 'g) indicator_doc option \<Rightarrow> string \<Rightarrow> string list" where
  "changed_emitters self other_doc calc =
     (case other_doc of
        Some other \<Rightarrow>
          (case shallow_dict_diff (state self calc) (state other calc) of
             None \<Rightarrow> []
           | Some calc_diff \<Rightarrow> calc_diff)
      | None \<Rightarrow> map fst (filter (\<lambda>(emitter_name, vals). vals \<noteq> []) (state self calc)))"

definition diff_keys ::
    "('i, 'v, 'g) indicator_class \<Rightarrow> ('v, 'g) indicator_doc \<Rightarrow> ('v, 'g) indicator_doc option \<Rightarrow>
     (string, string list) dict" where
  "diff_keys cls self other_doc =
     filter (\<lambda>(calc, emitter_names). emitter_names \<noteq> [])
       (map (\<lambda>calc. (calc, changed_emitters self other_doc calc)) (keys (cls_calculators cls)))"

text \<open>\<^verbatim>\<open>IndicatorDocument.diff(self, other_doc)\<close>.\<close>

definition diff ::
    "('i, 'v, 'g) indicator_class \<Rightarrow> ('v, 'g) indicator_doc \<Rightarrow> ('v, 'g) indicator_doc option \<Rightarrow>
     py_error + ('v, 'g) diff_descriptor option" where
  "diff cls self other_doc =
     (let dk = diff_keys cls self other_doc in
      if dk = [] then Inr None
      else
        (case for_each (getfield (properties self)) (group_by self) of
           Inl e \<Rightarrow> Inl e
         | Inr gvalues \<Rightarrow>
             (case for_each (\<lambda>(calc, emitter_names).
                              indicator_diff cls self calc emitter_names other_doc) dk of
                Inl e \<Rightarrow> Inl e
              | Inr indicators \<Rightarrow>
                  Inr (Some \<lparr>database = ''fluff'', doc_type = cls_doc_type cls,
                              group_names = group_by self, group_values = gvalues,
                              indicator_changes = concat indicators\<rparr>))))"


section \<open>\<^verbatim>\<open>FluffResult\<close>\<close>

text \<open>
  The store's view is a parameter: it takes a query (a key range or one key, and the
  \<^verbatim>\<open>reduce\<close> flag) and gives the rows of \<^verbatim>\<open>.all()\<close>, or raises. So are
  \<^verbatim>\<open>json_format_date\<close> and the current date.
\<close>

datatype 'g json = JString string | JValue 'g | JNull

datatype 'g view_query =
    RangeQuery "'g json list" "'g json list" bool
  | KeyQuery "'g json list" bool

record view_row =
  row_id :: string
  row_value :: int

datatype read_result = Count int | Ids "string list"

text \<open>The local function \<^verbatim>\<open>strip\<close> of \<^verbatim>\<open>_get\<close>.\<close>

definition strip :: "string \<Rightarrow> string \<Rightarrow> py_error + string" where
  "strip name id_string =
     (let prefix = name @ ''-''
      in if take (length prefix) id_string = prefix
         then Inr (drop (length prefix) id_string)
         else Inl AssertionError)"

text \<open>The end of \<^verbatim>\<open>_get\<close>, from \<^verbatim>\<open>if reduce:\<close> on, for the rows \<open>q\<close>.\<close>

definition read_rows :: "string \<Rightarrow> bool \<Rightarrow> view_row list \<Rightarrow> py_error + read_result" where
  "read_rows name reduce q =
     (if reduce
      then (case q of [] \<Rightarrow> Inr (Count 0) | r # rest \<Rightarrow> Inr (Count (row_value r)))
      else (case for_each (\<lambda>r. strip name (row_id r)) q of
              Inl e \<Rightarrow> Inl e
            | Inr ids \<Rightarrow> Inr (Ids ids)))"

text \<open>\<^verbatim>\<open>shared_key = [doc_type] + self.key + [self.calc_name, slug]\<close>.\<close>

definition shared_key_of ::
    "('i, 'v, 'g) indicator_class \<Rightarrow> 'g fluff_result \<Rightarrow> string \<Rightarrow> 'g json list" where
  "shared_key_of cls self slug =
     [JString (cls_doc_type cls)] @ map JValue (key self) @ [JString (calc_name self), JString slug]"

text \<open>\<^verbatim>\<open>FluffResult._get(self, slug, reduce)\<close>.\<close>

definition result_get ::
    "('i, 'v, 'g) indicator_class \<Rightarrow> ('g view_query \<Rightarrow> py_error + view_row list) \<Rightarrow>
     (int \<Rightarrow> string) \<Rightarrow> int \<Rightarrow> 'g fluff_result \<Rightarrow> string \<Rightarrow> bool \<Rightarrow> py_error + read_result" where
  "result_get cls view json_format_date now self slug reduce =
     (let shared_key = shared_key_of cls self slug
      in case getitem (cls_calculators cls) (calc_name self) of
           Inl e \<Rightarrow> Inl e
         | Inr calc \<Rightarrow>
             (case emitter_attr (klass calc) slug of
                None \<Rightarrow> Inl AttributeError
              | Some em \<Rightarrow>
                  if emitter_mark em = ''date'' then
                    (case get_window calc now slug of
                       Inl e \<Rightarrow> Inl e
                     | Inr (start, end) \<Rightarrow>
                         (case view (RangeQuery (shared_key @ [JString (json_format_date start)])
                                      (shared_key @ [JString (json_format_date end)]) reduce) of
                            Inl e \<Rightarrow> Inl e
                          | Inr q \<Rightarrow> read_rows (cls_name cls) reduce q))
                  else if emitter_mark em = ''null'' then
                    (case view (KeyQuery (shared_key @ [JNull]) reduce) of
                       Inl e \<Rightarrow> Inl e
                     | Inr q \<Rightarrow> read_rows (cls_name cls) reduce q)
                  else if emitter_mark em = ''delayed'' then
                    (let ids = emit_delayed em self
                     in if reduce then Inr (Count (int (length ids))) else Inr (Ids ids))
                  else Inl (EmitterTypeError (emitter_mark em))))"

definition get ::
    "('i, 'v, 'g) indicator_class \<Rightarrow> ('g view_query \<Rightarrow> py_error + view_row list) \<Rightarrow>
     (int \<Rightarrow> string) \<Rightarrow> int \<Rightarrow> 'g fluff_result \<Rightarrow> string \<Rightarrow> py_error + read_result" where
  "get cls view json_format_date now self slug =
     result_get cls view json_format_date now self slug True"

definition get_ids ::
    "('i, 'v, 'g) indicator_class \<Rightarrow> ('g view_query \<Rightarrow> py_error + view_row list) \<Rightarrow>
     (int \<Rightarrow> string) \<Rightarrow> int \<Rightarrow> 'g fluff_result \<Rightarrow> string \<Rightarrow> py_error + read_result" where
  "get_ids cls view json_format_date now self slug =
     result_get cls view json_format_date now self slug False"


section \<open>\<^verbatim>\<open>FluffPillow\<close>\<close>

text \<open>
  The store and the decoder are parameters: \<open>wrap\<close> is \<^verbatim>\<open>document_class.wrap\<close>,
  \<open>load\<close> is \<^verbatim>\<open>indicator_class.get\<close> (which raises \<^verbatim>\<open>ResourceNotFound\<close> for an
  unknown identity), \<open>save\<close> is the document's \<^verbatim>\<open>save()\<close>, giving the store after it.
  \<^verbatim>\<open>to_json()\<close> of the loaded document is the document as loaded: a value does not change
  when \<^verbatim>\<open>calculate\<close> later updates the object.
\<close>

text \<open>The \<^verbatim>\<open>try\<close> block of \<^verbatim>\<open>change_transform\<close>.\<close>

definition load_current ::
    "(string \<Rightarrow> py_error + ('v, 'g) indicator_doc) \<Rightarrow> string \<Rightarrow>
     py_error + ('v, 'g) indicator_doc option" where
  "load_current load indicator_id =
     (case load indicator_id of
        Inl e \<Rightarrow> (if e = ResourceNotFound then Inr None else Inl e)
      | Inr d \<Rightarrow> Inr (Some d))"

text \<open>\<^verbatim>\<open>FluffPillow.change_transform(self, doc_dict)\<close>.\<close>

definition change_transform ::
    "(('g, 'z) item_scheme, 'v, 'g) indicator_class \<Rightarrow> ('raw \<Rightarrow> py_error + ('g, 'z) item_scheme) \<Rightarrow>
     (string \<Rightarrow> py_error + ('v, 'g) indicator_doc) \<Rightarrow> 'raw \<Rightarrow>
     py_error + (('v, 'g) indicator_doc option \<times> ('v, 'g) indicator_doc)" where
  "change_transform cls wrap load doc_dict =
     (case wrap doc_dict of
        Inl e \<Rightarrow> Inl e
      | Inr doc \<Rightarrow>
          (let indicator_id = cls_name cls @ ''-'' @ get_id doc
           in case load_current load indicator_id of
                Inl e \<Rightarrow> Inl e
              | Inr current_indicator \<Rightarrow>
                  (let indicator = (case current_indicator of
                                      None \<Rightarrow> new_document cls indicator_id
                                    | Some d \<Rightarrow> d)
                   in case doc_calculate cls indicator doc of
                        Inl e \<Rightarrow> Inl e
                      | Inr indicator' \<Rightarrow> Inr (current_indicator, indicator'))))"

text \<open>
  \<^verbatim>\<open>FluffPillow.change_transport(self, indicators)\<close>: the store after the save, and the
  diff sent with the signal \<^verbatim>\<open>indicator_document_updated\<close> (\<open>None\<close> when none is sent).
\<close>

definition change_transport ::
    "('i, 'v, 'g) indicator_class \<Rightarrow> (('v, 'g) indicator_doc \<Rightarrow> py_error + 's) \<Rightarrow>
     ('v, 'g) indicator_doc option \<times> ('v, 'g) indicator_doc \<Rightarrow>
     py_error + ('s \<times> ('v, 'g) diff_descriptor option)" where
  "change_transport cls save indicators =
     (case indicators of (old_indicator, new_indicator) \<Rightarrow>
        (case save new_indicator of
           Inl e \<Rightarrow> Inl e
         | Inr store \<Rightarrow>
             (case diff cls new_indicator old_indicator of
                Inl e \<Rightarrow> Inl e
              | Inr d \<Rightarrow> Inr (store, d))))"


section \<open>Predicates used by the statements\<close>

text \<open>
  The coverage condition in the words of the specification: a window is set, or every
  emitter appears in \<^verbatim>\<open>offsets\<close>.
\<close>

definition covered_in_spec :: "('i, 'v, 'g) calculator_class \<Rightarrow> window_value \<Rightarrow> bool" where
  "covered_in_spec k window_arg \<longleftrightarrow>
     self_window k window_arg \<noteq> NoWindow \<or>
     (\<forall>emitter \<in> set (fluff_emitters (meta k)). emitter \<in> set (keys (self_offsets k)))"

text \<open>
  Every name in \<^verbatim>\<open>_fluff_filters\<close> and \<^verbatim>\<open>_fluff_emitters\<close> is an attribute of the
  calculator with the mark it was collected for. The metaclass collects the names from
  marked attributes, so this fails only when a subclass hides such a name behind an unmarked
  attribute.
\<close>

definition resolvable :: "('i, 'v, 'g) calculator \<Rightarrow> bool" where
  "resolvable self \<longleftrightarrow>
     (\<forall>slug \<in> set (fluff_filters (meta (klass self))). filter_attr (klass self) slug \<noteq> None) \<and>
     (\<forall>slug \<in> set (fluff_emitters (meta (klass self))). emitter_attr (klass self) slug \<noteq> None)"

text \<open>The emitters \<^verbatim>\<open>calculate\<close> stores a sequence for: the marks \<^verbatim>\<open>date\<close> and \<^verbatim>\<open>null\<close>.\<close>

definition stored_emitter :: "('i, 'v, 'g) calculator \<Rightarrow> string \<Rightarrow> bool" where
  "stored_emitter self slug =
     (case emitter_attr (klass self) slug of
        None \<Rightarrow> False
      | Some em \<Rightarrow> emitter_mark em = ''date'' \<or> emitter_mark em = ''null'')"


text \<open>
  A document that fits its class: every emitter name in the state of a calculator is a marked
  attribute of that calculator, and every name of \<^verbatim>\<open>group_by\<close> is a property that was
  set. \<^verbatim>\<open>IndicatorDocument.calculate\<close> leaves the document so.
\<close>

definition well_formed :: "('i, 'v, 'g) indicator_class \<Rightarrow> ('v, 'g) indicator_doc \<Rightarrow> bool" where
  "well_formed cls self \<longleftrightarrow>
     (\<forall>(calc, c) \<in> set (cls_calculators cls).
        \<forall>emitter_name \<in> set (keys (state self calc)). emitter_attr (klass c) emitter_name \<noteq> None) \<and>
     (\<forall>name \<in> set (group_by self). properties self name \<noteq> None)"

text \<open>
  The values of a changed emitter in the words of the specification: the symmetric set
  difference of the two sequences, \<open>self - other \<union> other - self\<close>.
\<close>

definition symmetric_difference :: "'v list \<Rightarrow> 'v list \<Rightarrow> 'v set" where
  "symmetric_difference mine theirs = (set mine - set theirs) \<union> (set theirs - set mine)"


section \<open>Example classes and documents\<close>

definition ex_Calculator :: pyclass where
  "ex_Calculator =
     fst (meta_new 0 ''Calculator'' [PlainClass ''object'']
            [(''filter'', plain_attr), (''to_python'', plain_attr), (''calculate'', plain_attr),
             (''get_window'', plain_attr), (''get_result'', plain_attr)])"

definition ex_Visits :: pyclass where
  "ex_Visits =
     fst (meta_new 1 ''Visits'' [ex_Calculator]
            [(''all_visits'', date_emitter plain_attr), (''null_visits'', null_emitter plain_attr),
             (''has_owner'', filter_by plain_attr), (''helper'', plain_attr)])"

definition ex_LateVisits :: pyclass where
  "ex_LateVisits =
     fst (meta_new 2 ''LateVisits'' [PlainClass ''Mixin'', ex_Visits]
            [(''all_visits'', plain_attr), (''late'', post_process plain_attr)])"


definition ex_visits_class :: "(string item, int, string) calculator_class" where
  "ex_visits_class =
     \<lparr>meta = ex_Visits, cls_window = NoWindow, cls_offsets = Some [(''null_visits'', (days (-7), 0))],
      filter_item = (\<lambda>item. True),
      emitter_attr = [''all_visits'' \<mapsto> Emitter ''date'' (\<lambda>item. [2, 3, 4]) (\<lambda>r. []),
                      ''null_visits'' \<mapsto> Emitter ''null'' (\<lambda>item. [1]) (\<lambda>r. [])],
      filter_attr = [''has_owner'' \<mapsto> (\<lambda>item. item_fields item ''owner_id'' \<noteq> None)]\<rparr>"

definition ex_offsets_only :: "(string item, int, string) calculator_class" where
  "ex_offsets_only =
     ex_visits_class\<lparr>cls_offsets :=
       Some [(''all_visits'', (days (-30), 0)), (''null_visits'', (days (-7), 0))]\<rparr>"

definition ex_calc :: "(string item, int, string) calculator" where
  "ex_calc =
     \<lparr>klass = ex_visits_class, window = Timedelta (days 30),
      offsets = [(''null_visits'', (days (-7), 0))]\<rparr>"

definition ex_item :: "string item" where
  "ex_item = \<lparr>get_id = ''doc1'', item_fields = [''domain'' \<mapsto> ''test'', ''owner_id'' \<mapsto> ''abc'']\<rparr>"

definition ex_item_no_owner :: "string item" where
  "ex_item_no_owner = \<lparr>get_id = ''doc1'', item_fields = [''domain'' \<mapsto> ''test'']\<rparr>"


definition ex_indicators :: "(string item, int, string) indicator_class" where
  "ex_indicators =
     \<lparr>cls_name = ''VisitIndicators'', cls_doc_type = ''VisitIndicators'',
      cls_calculators = [(''visits'', ex_calc)], cls_group_by = [''domain'']\<rparr>"

definition ex_doc :: "(int, string) indicator_doc" where
  "ex_doc =
     \<lparr>couch_id = ''VisitIndicators-doc1'', doc_id = Some ''doc1'', group_by = [''domain''],
      state = (\<lambda>slug. [])(''visits'' := [(''null_visits'', [1]), (''all_visits'', [2, 3, 4])]),
      properties = [''domain'' \<mapsto> ''test'']\<rparr>"

definition ex_previous :: "(int, string) indicator_doc" where
  "ex_previous =
     ex_doc\<lparr>state := (\<lambda>slug. [])(''visits'' := [(''null_visits'', [1]), (''all_visits'', [1, 2, 3])])\<rparr>"

definition ex_reader :: "string fluff_result" where
  "ex_reader = \<lparr>calc_name = ''visits'', key = [''test'']\<rparr>"


text \<open>A stored version from before the emitter \<^verbatim>\<open>null_visits\<close> was declared.\<close>

definition ex_stored_before :: "(int, string) indicator_doc" where
  "ex_stored_before = ex_doc\<lparr>state := (\<lambda>slug. [])(''visits'' := [(''all_visits'', [1, 2, 3])])\<rparr>"


text \<open>The document after one value of \<^verbatim>\<open>all_visits\<close> was taken away.\<close>

definition ex_after_removal :: "(int, string) indicator_doc" where
  "ex_after_removal =
     ex_doc\<lparr>state := (\<lambda>slug. [])(''visits'' := [(''null_visits'', [1]), (''all_visits'', [2, 3])])\<rparr>"


section \<open>Inheritance of emitters and filters\<close>

lemma set_fold_insert: "set (fold List.insert xs ys) = set xs \<union> set ys"
  by (induction xs arbitrary: ys) auto

lemma set_inherit:
  "set (inherit names parents own) = set own \<union> (\<Union>p \<in> set parents. set (names p))"
  unfolding inherit_def
  by (induction parents arbitrary: own) (auto simp: set_fold_insert)

lemma meta_new_emitters:
  "set (fluff_emitters (fst (meta_new k name bases attrs))) =
     set (own_emitters attrs) \<union> (\<Union>p \<in> set bases. set (fluff_emitters p))"
proof -
  have "(\<Union>p \<in> set (filter is_CalculatorMeta bases). set (fluff_emitters p)) =
        (\<Union>p \<in> set bases. set (fluff_emitters p))"
  proof (rule set_eqI)
    fix x
    show "x \<in> (\<Union>p \<in> set (filter is_CalculatorMeta bases). set (fluff_emitters p)) \<longleftrightarrow>
          x \<in> (\<Union>p \<in> set bases. set (fluff_emitters p))"
    proof
      assume "x \<in> (\<Union>p \<in> set bases. set (fluff_emitters p))"
      then obtain p where p: "p \<in> set bases" "x \<in> set (fluff_emitters p)" by auto
      from p(2) have "is_CalculatorMeta p" by (cases p) auto
      with p show "x \<in> (\<Union>p \<in> set (filter is_CalculatorMeta bases). set (fluff_emitters p))"
        by auto
    qed auto
  qed
  then show ?thesis by (simp add: meta_new_def Let_def set_inherit)
qed

lemma meta_new_filters:
  "set (fluff_filters (fst (meta_new k name bases attrs))) =
     set (own_filters attrs) \<union> (\<Union>p \<in> set bases. set (fluff_filters p))"
proof -
  have "(\<Union>p \<in> set (filter is_CalculatorMeta bases). set (fluff_filters p)) =
        (\<Union>p \<in> set bases. set (fluff_filters p))"
  proof (rule set_eqI)
    fix x
    show "x \<in> (\<Union>p \<in> set (filter is_CalculatorMeta bases). set (fluff_filters p)) \<longleftrightarrow>
          x \<in> (\<Union>p \<in> set bases. set (fluff_filters p))"
    proof
      assume "x \<in> (\<Union>p \<in> set bases. set (fluff_filters p))"
      then obtain p where p: "p \<in> set bases" "x \<in> set (fluff_filters p)" by auto
      from p(2) have "is_CalculatorMeta p" by (cases p) auto
      with p show "x \<in> (\<Union>p \<in> set (filter is_CalculatorMeta bases). set (fluff_filters p))"
        by auto
    qed auto
  qed
  then show ?thesis by (simp add: meta_new_def Let_def set_inherit)
qed

lemma meta_new_bases: "cls_bases (fst (meta_new k name bases attrs)) = bases"
  by (simp add: meta_new_def Let_def)

lemma created_base:
  assumes "created c" and "p \<in> set (cls_bases c)" and "is_CalculatorMeta p"
  shows "created p"
  using assms by (cases rule: created.cases) (simp add: meta_new_bases)

lemma base_subset:
  assumes "created c" and "p \<in> set (cls_bases c)"
  shows "set (fluff_emitters p) \<subseteq> set (fluff_emitters c) \<and>
         set (fluff_filters p) \<subseteq> set (fluff_filters c)"
  using assms
proof (cases rule: created.cases)
  case (created_new bases k name attrs)
  with assms(2) have "p \<in> set bases" by (simp add: meta_new_bases)
  then show ?thesis
    unfolding created_new(1) meta_new_emitters meta_new_filters by blast
qed

lemma derives_plain: "derives p a \<Longrightarrow> \<not> is_CalculatorMeta p \<Longrightarrow> a = p"
  by (induction rule: derives.induct) (auto elim: is_CalculatorMeta.elims)

text \<open>
  C3. Along every chain of derivation between classes made by \<^verbatim>\<open>CalculatorMeta\<close>, the
  emitter names of the ancestor are among the emitter names of the descendant, and so are
  the filter names; this holds whatever the class bodies in between declare, so marking a
  name again (or overriding it with an unmarked attribute) removes nothing.
\<close>

theorem subtype_keeps_emitters_and_filters:
  assumes "derives c a" and "created c"
  shows "set (fluff_emitters a) \<subseteq> set (fluff_emitters c) \<and>
         set (fluff_filters a) \<subseteq> set (fluff_filters c)"
  using assms
proof (induction rule: derives.induct)
  case (derives_refl c)
  show ?case by simp
next
  case (derives_step p c a)
  have up: "set (fluff_emitters p) \<subseteq> set (fluff_emitters c) \<and>
            set (fluff_filters p) \<subseteq> set (fluff_filters c)"
    using derives_step.prems derives_step.hyps(1) by (rule base_subset)
  show ?case
  proof (cases "is_CalculatorMeta p")
    case True
    from derives_step.prems derives_step.hyps(1) True have "created p" by (rule created_base)
    with derives_step.IH up show ?thesis by blast
  next
    case False
    with derives_step.hyps(2) have "a = p" by (rule derives_plain)
    with up show ?thesis by simp
  qed
qed

lemma ex_Visits_sets:
  "fluff_emitters ex_Visits = [''null_visits'', ''all_visits''] \<and> fluff_filters ex_Visits = [''has_owner'']"
  by (simp add: ex_Visits_def ex_Calculator_def meta_new_def own_emitters_def own_filters_def
      inherit_def has_emitter_tag_def plain_attr_def date_emitter_def null_emitter_def filter_by_def)

theorem subtype_keeps_emitters_and_filters_witness:
  "derives ex_LateVisits ex_Visits \<and> created ex_LateVisits \<and>
   set (fluff_emitters ex_Visits) \<subseteq> set (fluff_emitters ex_LateVisits) \<and>
   set (fluff_filters ex_Visits) \<subseteq> set (fluff_filters ex_LateVisits) \<and>
   ''all_visits'' \<in> set (fluff_emitters ex_LateVisits)"
proof -
  have c0: "created ex_Calculator"
    unfolding ex_Calculator_def by (rule created_new) auto
  have c1: "created ex_Visits"
    unfolding ex_Visits_def by (rule created_new) (use c0 in auto)
  have c2: "created ex_LateVisits"
    unfolding ex_LateVisits_def by (rule created_new) (use c1 in auto)
  have "ex_Visits \<in> set (cls_bases ex_LateVisits)"
    by (simp add: ex_LateVisits_def meta_new_bases)
  then have d: "derives ex_LateVisits ex_Visits"
    by (rule derives_step) (rule derives_refl)
  from subtype_keeps_emitters_and_filters[OF d c2] d c2 show ?thesis
    by (auto simp: ex_Visits_sets)
qed


section \<open>Loops that may raise\<close>

lemma for_each_Inr_iff:
  "for_each f xs = Inr ys \<longleftrightarrow> list_all2 (\<lambda>x y. f x = Inr y) xs ys"
proof (induction xs arbitrary: ys)
  case Nil
  show ?case by auto
next
  case (Cons x xs)
  show ?case
  proof (cases "f x")
    case (Inl e)
    then show ?thesis by (auto simp: list_all2_Cons1)
  next
    case (Inr y)
    show ?thesis
    proof (cases "for_each f xs")
      case (Inl e)
      with Inr Cons.IH show ?thesis by (auto simp: list_all2_Cons1)
    next
      case r: (Inr zs)
      with Inr Cons.IH show ?thesis by (auto simp: list_all2_Cons1)
    qed
  qed
qed

lemma for_each_total:
  assumes "\<And>x. x \<in> set xs \<Longrightarrow> f x = Inr (g x)"
  shows "for_each f xs = Inr (map g xs)"
  using assms by (induction xs) auto

lemma for_each_set:
  assumes "for_each f xs = Inr ys"
  shows "set ys = {y. \<exists>x \<in> set xs. f x = Inr y}"
proof -
  from assms have "list_all2 (\<lambda>x y. f x = Inr y) xs ys" by (simp add: for_each_Inr_iff)
  then show ?thesis
    by (induction rule: list_all2_induct) auto
qed

lemma for_each_first_error:
  assumes "\<And>x. x \<in> set xs \<Longrightarrow> f x = Inl err \<or> (\<exists>y. f x = Inr y)"
    and "\<exists>x \<in> set xs. f x = Inl err"
  shows "for_each f xs = Inl err"
  using assms
proof (induction xs)
  case Nil
  then show ?case by simp
next
  case (Cons x xs)
  show ?case
  proof (cases "f x")
    case (Inl e)
    with Cons.prems(1)[of x] show ?thesis by auto
  next
    case (Inr y)
    with Cons.prems(2) have "\<exists>x \<in> set xs. f x = Inl err" by auto
    with Cons.IH Cons.prems(1) have "for_each f xs = Inl err" by auto
    with Inr show ?thesis by simp
  qed
qed

lemma for_each_some_error:
  assumes "\<exists>x \<in> set xs. \<exists>e. f x = Inl e"
  shows "\<exists>e. for_each f xs = Inl e"
  using assms
proof (induction xs)
  case Nil
  then show ?case by simp
next
  case (Cons x xs)
  then show ?case by (cases "f x"; cases "for_each f xs") auto
qed


section \<open>Construction of a calculator\<close>

lemma set_fold_removeAll: "set (fold removeAll xs ys) = set ys - set xs"
  by (induction xs arbitrary: ys) auto

lemma set_emitters_not_covered:
  "set (emitters_not_covered k w) =
     (if truthy (self_window k w) then {} else set (fluff_emitters (meta k)) - set (keys (self_offsets k)))"
  by (auto simp: emitters_not_covered_def Let_def set_fold_removeAll)

text \<open>
  C2, as the code has it. Construction succeeds exactly when \<^verbatim>\<open>self.window\<close> (the
  argument, else the class attribute) is a \<^verbatim>\<open>timedelta\<close> and either it is not zero or
  every declared emitter has an entry in \<^verbatim>\<open>offsets\<close>. Without a window construction
  fails with the message about the window, whatever \<^verbatim>\<open>offsets\<close> holds; with a window of
  length zero and an emitter missing from \<^verbatim>\<open>offsets\<close> it fails with the message that
  lists exactly the emitters that are not covered.
\<close>

theorem init_succeeds_iff:
  "((\<exists>c. init k w = Inr c) \<longleftrightarrow>
      (\<exists>d. self_window k w = Timedelta d \<and>
           (d \<noteq> 0 \<or> set (fluff_emitters (meta k)) \<subseteq> set (keys (self_offsets k))))) \<and>
   (self_window k w = NoWindow \<longrightarrow> init k w = Inl (NotImplementedError WindowMustBeTimedelta)) \<and>
   (self_window k w = Timedelta 0 \<and> \<not> set (fluff_emitters (meta k)) \<subseteq> set (keys (self_offsets k)) \<longrightarrow>
      (\<exists>names. init k w = Inl (NotImplementedError (EmittersNotCovered names)) \<and>
         set names = set (fluff_emitters (meta k)) - set (keys (self_offsets k))))"
proof (intro conjI impI)
  show "(\<exists>c. init k w = Inr c) \<longleftrightarrow>
      (\<exists>d. self_window k w = Timedelta d \<and>
           (d \<noteq> 0 \<or> set (fluff_emitters (meta k)) \<subseteq> set (keys (self_offsets k))))"
  proof (cases "self_window k w")
    case (Timedelta d)
    have "emitters_not_covered k w = [] \<longleftrightarrow> set (emitters_not_covered k w) = {}" by simp
    then show ?thesis
      unfolding set_emitters_not_covered using Timedelta by (auto simp: init_def)
  qed (simp_all add: init_def)
next
  assume "self_window k w = NoWindow"
  then show "init k w = Inl (NotImplementedError WindowMustBeTimedelta)" by (simp add: init_def)
next
  assume a: "self_window k w = Timedelta 0 \<and> \<not> set (fluff_emitters (meta k)) \<subseteq> set (keys (self_offsets k))"
  then have s: "set (emitters_not_covered k w) = set (fluff_emitters (meta k)) - set (keys (self_offsets k))"
    by (simp add: set_emitters_not_covered)
  with a have "emitters_not_covered k w \<noteq> []" by auto
  with a s show "\<exists>names. init k w = Inl (NotImplementedError (EmittersNotCovered names)) \<and>
         set names = set (fluff_emitters (meta k)) - set (keys (self_offsets k))"
    by (simp add: init_def)
qed

text \<open>
  C7, as the code has it. For a calculator that was constructed and a date \<open>now\<close>,
  \<^verbatim>\<open>get_window\<close> returns \<open>(now + start, now + end)\<close> for an emitter with an offset
  pair and \<open>(now - window, now)\<close> for every other emitter, in the arithmetic of dates (the
  date moves by the whole days of the timedelta), when these are dates; when one of them is
  before \<^verbatim>\<open>date.min\<close> or after \<^verbatim>\<open>date.max\<close> it raises \<^verbatim>\<open>OverflowError\<close>.
\<close>

theorem get_window_resolves:
  assumes "init k w = Inr c"
  shows "\<exists>d. window c = Timedelta d \<and>
           get_window c now e =
             (case map_of (offsets c) e of
                Some (start, end) \<Rightarrow>
                  (if in_date_range (now + td_days start) \<and> in_date_range (now + td_days end)
                   then Inr (now + td_days start, now + td_days end)
                   else Inl OverflowError)
              | None \<Rightarrow>
                  (if in_date_range (now - td_days d)
                   then Inr (now - td_days d, now)
                   else Inl OverflowError))"
proof -
  from assms obtain d where d: "self_window k w = Timedelta d" and w: "window c = self_window k w"
    by (cases "self_window k w") (auto simp: init_def split: if_splits)
  show ?thesis
  proof (cases "map_of (offsets c) e")
    case None
    with d w show ?thesis by (simp add: get_window_def date_sub_def)
  next
    case (Some pair)
    obtain start "end" where "pair = (start, end)" by (cases pair)
    with Some d w show ?thesis by (simp add: get_window_def date_add_def)
  qed
qed


section \<open>Filters and emitted values\<close>

lemma all_filters_fails:
  assumes "\<forall>slug \<in> set slugs. attrs slug \<noteq> None"
    and "\<exists>slug \<in> set slugs. \<exists>f. attrs slug = Some f \<and> \<not> f item"
  shows "all_filters attrs item slugs = Inr False"
  using assms
proof (induction slugs)
  case Nil
  then show ?case by simp
next
  case (Cons a slugs)
  from Cons.prems(1) obtain g where g: "attrs a = Some g" by auto
  show ?case
  proof (cases "g item")
    case True
    with g Cons.prems(2) have "\<exists>slug \<in> set slugs. \<exists>f. attrs slug = Some f \<and> \<not> f item" by auto
    with Cons.IH Cons.prems(1) have "all_filters attrs item slugs = Inr False" by simp
    with g True show ?thesis by simp
  next
    case False
    with g show ?thesis by simp
  qed
qed

lemma calculate_slug_not_passing:
  assumes "emitter_attr (klass self) slug \<noteq> None"
  shows "calculate_slug self False item slug =
           Inr (if stored_emitter self slug then Some (slug, []) else None)"
  using assms by (auto simp: calculate_slug_def stored_emitter_def)

lemma map_filter_stored:
  "List.map_filter (\<lambda>entry. entry) (map (\<lambda>slug. if P slug then Some (slug, []) else None) slugs) =
     map (\<lambda>slug. (slug, [])) (filter P slugs)"
  by (induction slugs) (auto simp: List.map_filter_simps)

text \<open>
  C4. When the item fails \<^verbatim>\<open>filter\<close> or one of the filters of \<^verbatim>\<open>_fluff_filters\<close>,
  \<^verbatim>\<open>calculate\<close> returns the dict that maps every \<^verbatim>\<open>date\<close> and \<^verbatim>\<open>null\<close> emitter
  to the empty sequence, whatever the emitters would yield for the item.
\<close>

theorem failed_filter_gives_empty_sequences:
  assumes "resolvable self"
    and "\<not> filter_item (klass self) item \<or>
         (\<exists>slug \<in> set (fluff_filters (meta (klass self))).
            \<exists>f. filter_attr (klass self) slug = Some f \<and> \<not> f item)"
  shows "calculate self item =
           Inr (map (\<lambda>slug. (slug, [])) (filter (stored_emitter self) (fluff_emitters (meta (klass self)))))"
proof -
  have "passes_filter self item = Inr False"
  proof (cases "filter_item (klass self) item")
    case True
    with assms(2) have "\<exists>slug \<in> set (fluff_filters (meta (klass self))).
            \<exists>f. filter_attr (klass self) slug = Some f \<and> \<not> f item" by simp
    moreover from assms(1) have "\<forall>slug \<in> set (fluff_filters (meta (klass self))). filter_attr (klass self) slug \<noteq> None"
      by (simp add: resolvable_def)
    ultimately have "all_filters (filter_attr (klass self)) item (fluff_filters (meta (klass self))) = Inr False"
      by (rule all_filters_fails[rotated])
    with True show ?thesis by (simp add: passes_filter_def)
  next
    case False
    then show ?thesis by (simp add: passes_filter_def)
  qed
  moreover have "for_each (calculate_slug self False item) (fluff_emitters (meta (klass self))) =
      Inr (map (\<lambda>slug. if stored_emitter self slug then Some (slug, []) else None)
             (fluff_emitters (meta (klass self))))"
  proof (rule for_each_total)
    fix x assume "x \<in> set (fluff_emitters (meta (klass self)))"
    with assms(1) have "emitter_attr (klass self) x \<noteq> None" by (simp add: resolvable_def)
    then show "calculate_slug self False item x = Inr (if stored_emitter self x then Some (x, []) else None)"
      by (rule calculate_slug_not_passing)
  qed
  ultimately show ?thesis by (simp add: calculate_def map_filter_stored)
qed


section \<open>The diff of indicator documents\<close>

lemma shallow_dict_diff_same: "shallow_dict_diff d d = None \<or> shallow_dict_diff d d = Some []"
  by (auto simp: shallow_dict_diff_def Let_def filter_empty_conv)

text \<open>
  C6. A document diffed against a previous version with the same state for every calculator
  gives \<^verbatim>\<open>None\<close>.
\<close>

theorem diff_of_identical_state:
  assumes "\<forall>calc \<in> set (keys (cls_calculators cls)). state self calc = state other calc"
  shows "diff cls self (Some other) = Inr None"
proof -
  have "changed_emitters self (Some other) calc = []" if "calc \<in> set (keys (cls_calculators cls))" for calc
    using that assms shallow_dict_diff_same[of "state other calc"]
    by (auto simp: changed_emitters_def)
  then have "diff_keys cls self (Some other) = []"
    by (auto simp: diff_keys_def filter_empty_conv)
  then show ?thesis by (simp add: diff_def)
qed


section \<open>Recomputing a document\<close>

lemma for_each_error:
  assumes "for_each f xs = Inl e"
  shows "\<exists>x \<in> set xs. f x = Inl e"
  using assms
proof (induction xs)
  case Nil
  then show ?case by simp
next
  case (Cons x xs)
  then show ?case by (cases "f x"; cases "for_each f xs") auto
qed

lemma for_each_succeeds:
  assumes "\<And>x. x \<in> set xs \<Longrightarrow> \<exists>y. f x = Inr y"
  shows "\<exists>ys. for_each f xs = Inr ys"
  using assms
proof (induction xs)
  case Nil
  show ?case by simp
next
  case (Cons x xs)
  from Cons.prems[of x] obtain y where "f x = Inr y" by auto
  moreover from Cons.IH Cons.prems obtain ys where "for_each f xs = Inr ys" by auto
  ultimately show ?case by simp
qed

lemma all_filters_error: "all_filters attrs item slugs = Inl e \<Longrightarrow> e = AttributeError"
  by (induction slugs) (auto split: option.splits if_splits)

lemma all_filters_succeeds:
  "\<forall>slug \<in> set slugs. attrs slug \<noteq> None \<Longrightarrow> \<exists>b. all_filters attrs item slugs = Inr b"
  by (induction slugs) auto

lemma calculate_error:
  assumes "calculate self item = Inl e"
  shows "e = AttributeError"
proof (cases "passes_filter self item")
  case (Inl e')
  with assms have "e' = e" by (simp add: calculate_def)
  with Inl have "all_filters (filter_attr (klass self)) item (fluff_filters (meta (klass self))) = Inl e"
    by (simp add: passes_filter_def split: if_splits)
  then show ?thesis by (rule all_filters_error)
next
  case (Inr passes)
  with assms have "for_each (calculate_slug self passes item) (fluff_emitters (meta (klass self))) = Inl e"
    by (auto simp: calculate_def split: sum.splits)
  then have "\<exists>slug \<in> set (fluff_emitters (meta (klass self))). calculate_slug self passes item slug = Inl e"
    by (rule for_each_error)
  then obtain slug where "calculate_slug self passes item slug = Inl e" by blast
  then show ?thesis
    by (cases "emitter_attr (klass self) slug") (simp_all add: calculate_slug_def split: if_splits)
qed

lemma calculate_succeeds:
  assumes "resolvable self"
  shows "\<exists>vals. calculate self item = Inr vals"
proof -
  from assms have "\<forall>slug \<in> set (fluff_filters (meta (klass self))). filter_attr (klass self) slug \<noteq> None"
    by (simp add: resolvable_def)
  then have "\<exists>b. all_filters (filter_attr (klass self)) item (fluff_filters (meta (klass self))) = Inr b"
    by (rule all_filters_succeeds)
  then have "\<exists>passes. passes_filter self item = Inr passes"
    by (cases "filter_item (klass self) item") (auto simp: passes_filter_def)
  then obtain passes where p: "passes_filter self item = Inr passes" ..
  have "\<exists>ys. for_each (calculate_slug self passes item) (fluff_emitters (meta (klass self))) = Inr ys"
  proof (rule for_each_succeeds)
    fix x assume "x \<in> set (fluff_emitters (meta (klass self)))"
    with assms have "emitter_attr (klass self) x \<noteq> None" by (simp add: resolvable_def)
    then show "\<exists>y. calculate_slug self passes item x = Inr y"
      by (auto simp: calculate_slug_def)
  qed
  with p show ?thesis by (auto simp: calculate_def)
qed

lemma calculate_all_error:
  "calculate_all calcs item self = Inl e \<Longrightarrow> e = AttributeError"
proof (induction calcs item self rule: calculate_all.induct)
  case (1 item self)
  then show ?case by simp
next
  case (2 attr calculator rest item self)
  show ?case
  proof (cases "calculate calculator item")
    case (Inl e')
    with "2.prems" have "e' = e" by simp
    with Inl show ?thesis by (simp add: calculate_error)
  next
    case (Inr vals)
    with "2.prems" "2.IH" show ?thesis by simp
  qed
qed

lemma calculate_all_group_by:
  "calculate_all calcs item self = Inr self' \<Longrightarrow> group_by self' = group_by self"
proof (induction calcs item self rule: calculate_all.induct)
  case (1 item self)
  then show ?case by simp
next
  case (2 attr calculator rest item self)
  show ?case
  proof (cases "calculate calculator item")
    case (Inl e')
    with "2.prems" show ?thesis by simp
  next
    case (Inr vals)
    with "2.prems" "2.IH" show ?thesis by simp
  qed
qed

lemma calculate_all_succeeds:
  assumes "\<forall>(slug, c) \<in> set calcs. resolvable c"
  shows "\<exists>self'. calculate_all calcs item self = Inr self'"
  using assms
proof (induction calcs item self rule: calculate_all.induct)
  case (1 item self)
  show ?case by simp
next
  case (2 attr calculator rest item self)
  from "2.prems" have "resolvable calculator" by simp
  then have "\<exists>vals. calculate calculator item = Inr vals" by (rule calculate_succeeds)
  then obtain vals where v: "calculate calculator item = Inr vals" ..
  from "2.prems" have "\<forall>(slug, c) \<in> set rest. resolvable c" by simp
  then have "\<exists>self'. calculate_all rest item (self\<lparr>state := (state self)(attr := vals)\<rparr>) = Inr self'"
    by (rule "2.IH"[OF v])
  with v show ?case by simp
qed

lemma copy_group_fields_error:
  "copy_group_fields names item self = Inl e \<Longrightarrow> e = AttributeError"
proof (induction names item self rule: copy_group_fields.induct)
  case (1 item self)
  then show ?case by simp
next
  case (2 attr rest item self)
  show ?case
  proof (cases "item_fields item attr")
    case None
    with "2.prems" show ?thesis by (simp add: getfield_def)
  next
    case (Some v)
    then have "getfield (item_fields item) attr = Inr v" by (simp add: getfield_def)
    with "2.prems" "2.IH" show ?thesis by simp
  qed
qed

lemma copy_group_fields_succeeds:
  "\<forall>name \<in> set names. item_fields item name \<noteq> None \<Longrightarrow>
   \<exists>self'. copy_group_fields names item self = Inr self'"
proof (induction names item self rule: copy_group_fields.induct)
  case (1 item self)
  then show ?case by simp
next
  case (2 attr rest item self)
  from "2.prems" obtain v where "item_fields item attr = Some v" by auto
  then have g: "getfield (item_fields item) attr = Inr v" by (simp add: getfield_def)
  from "2.prems" have "\<forall>name \<in> set rest. item_fields item name \<noteq> None" by simp
  with "2.IH"[OF g] g show ?case by simp
qed

lemma doc_calculate_error:
  assumes "doc_calculate cls self item = Inl e"
  shows "e = AttributeError"
proof (cases "calculate_all (cls_calculators cls) item self")
  case (Inl e')
  with assms have "e' = e" by (simp add: doc_calculate_def)
  with Inl show ?thesis by (simp add: calculate_all_error)
next
  case (Inr self1)
  with assms have
    "copy_group_fields (group_by self1) item (self1\<lparr>doc_id := Some (get_id item)\<rparr>) = Inl e"
    by (simp add: doc_calculate_def split: sum.splits)
  then show ?thesis by (rule copy_group_fields_error)
qed

lemma doc_calculate_succeeds:
  assumes "\<forall>(slug, c) \<in> set (cls_calculators cls). resolvable c"
    and "\<forall>name \<in> set (group_by self). item_fields item name \<noteq> None"
  shows "\<exists>self'. doc_calculate cls self item = Inr self'"
proof -
  from assms(1) have "\<exists>self1. calculate_all (cls_calculators cls) item self = Inr self1"
    by (rule calculate_all_succeeds)
  then obtain self1 where s1: "calculate_all (cls_calculators cls) item self = Inr self1" ..
  then have "group_by self1 = group_by self" by (rule calculate_all_group_by)
  with assms(2) have "\<forall>name \<in> set (group_by self1). item_fields item name \<noteq> None" by simp
  then have "\<exists>self2. copy_group_fields (group_by self1) item (self1\<lparr>doc_id := Some (get_id item)\<rparr>) = Inr self2"
    by (rule copy_group_fields_succeeds)
  then obtain self2 where
    "copy_group_fields (group_by self1) item (self1\<lparr>doc_id := Some (get_id item)\<rparr>) = Inr self2" ..
  with s1 show ?thesis by (simp add: doc_calculate_def)
qed

text \<open>
  C8. When loading the prior document raises \<^verbatim>\<open>ResourceNotFound\<close>,
  \<^verbatim>\<open>change_transform\<close> goes on with a new document of the derived identity and returns
  \<^verbatim>\<open>None\<close> as the previous version; \<^verbatim>\<open>ResourceNotFound\<close> never reaches the caller.
  When every calculator's names resolve and the item has the fields of \<^verbatim>\<open>group_by\<close>,
  the transform returns, and \<^verbatim>\<open>change_transport\<close> takes the diff against no previous
  version.
\<close>

theorem not_found_means_first_time:
  assumes "wrap doc_dict = Inr doc"
    and "load (cls_name cls @ ''-'' @ get_id doc) = Inl ResourceNotFound"
  shows "change_transform cls wrap load doc_dict =
           (case doc_calculate cls (new_document cls (cls_name cls @ ''-'' @ get_id doc)) doc of
              Inl e \<Rightarrow> Inl e
            | Inr indicator \<Rightarrow> Inr (None, indicator)) \<and>
         change_transform cls wrap load doc_dict \<noteq> Inl ResourceNotFound \<and>
         ((\<forall>(slug, c) \<in> set (cls_calculators cls). resolvable c) \<and>
          (\<forall>name \<in> set (cls_group_by cls). item_fields doc name \<noteq> None) \<longrightarrow>
            (\<exists>indicator. change_transform cls wrap load doc_dict = Inr (None, indicator) \<and>
               change_transport cls save (None, indicator) =
                 (case save indicator of
                    Inl e \<Rightarrow> Inl e
                  | Inr store \<Rightarrow>
                      (case diff cls indicator None of
                         Inl e \<Rightarrow> Inl e
                       | Inr d \<Rightarrow> Inr (store, d)))))"
proof -
  let ?fresh = "new_document cls (cls_name cls @ ''-'' @ get_id doc)"
  have t: "change_transform cls wrap load doc_dict =
           (case doc_calculate cls ?fresh doc of
              Inl e \<Rightarrow> Inl e
            | Inr indicator \<Rightarrow> Inr (None, indicator))"
    using assms by (simp add: change_transform_def load_current_def Let_def)
  have n: "change_transform cls wrap load doc_dict \<noteq> Inl ResourceNotFound"
  proof (cases "doc_calculate cls ?fresh doc")
    case (Inl e)
    then have "e = AttributeError" by (rule doc_calculate_error)
    with Inl t show ?thesis by simp
  next
    case (Inr indicator)
    with t show ?thesis by simp
  qed
  have s: "\<exists>indicator. change_transform cls wrap load doc_dict = Inr (None, indicator) \<and>
               change_transport cls save (None, indicator) =
                 (case save indicator of
                    Inl e \<Rightarrow> Inl e
                  | Inr store \<Rightarrow>
                      (case diff cls indicator None of
                         Inl e \<Rightarrow> Inl e
                       | Inr d \<Rightarrow> Inr (store, d)))"
    if "(\<forall>(slug, c) \<in> set (cls_calculators cls). resolvable c) \<and>
        (\<forall>name \<in> set (cls_group_by cls). item_fields doc name \<noteq> None)"
  proof -
    from that have "\<forall>name \<in> set (group_by ?fresh). item_fields doc name \<noteq> None"
      by (simp add: new_document_def)
    moreover from that have "\<forall>(slug, c) \<in> set (cls_calculators cls). resolvable c" ..
    ultimately have "\<exists>indicator. doc_calculate cls ?fresh doc = Inr indicator"
      by (rule doc_calculate_succeeds[rotated])
    then obtain indicator where "doc_calculate cls ?fresh doc = Inr indicator" ..
    with t show ?thesis by (simp add: change_transport_def)
  qed
  from s have "(\<forall>(slug, c) \<in> set (cls_calculators cls). resolvable c) \<and>
          (\<forall>name \<in> set (cls_group_by cls). item_fields doc name \<noteq> None) \<longrightarrow>
            (\<exists>indicator. change_transform cls wrap load doc_dict = Inr (None, indicator) \<and>
               change_transport cls save (None, indicator) =
                 (case save indicator of
                    Inl e \<Rightarrow> Inl e
                  | Inr store \<Rightarrow>
                      (case diff cls indicator None of
                         Inl e \<Rightarrow> Inl e
                       | Inr d \<Rightarrow> Inr (store, d))))" by (rule impI)
  with t n show ?thesis by (intro conjI)
qed


section \<open>Reading results\<close>

text \<open>
  C9. A reduced read of a \<^verbatim>\<open>date\<close> or \<^verbatim>\<open>null\<close> emitter whose query returns no rows
  returns the count 0.
\<close>

theorem reduced_read_of_empty_range:
  assumes "getitem (cls_calculators cls) (calc_name r) = Inr calc"
    and "emitter_attr (klass calc) slug = Some em"
    and "emitter_mark em = ''date'' \<or> emitter_mark em = ''null''"
    and "emitter_mark em = ''date'' \<Longrightarrow>
           \<exists>start end. get_window calc now slug = Inr (start, end) \<and>
             view (RangeQuery (shared_key_of cls r slug @ [JString (json_format_date start)])
                     (shared_key_of cls r slug @ [JString (json_format_date end)]) True) = Inr []"
    and "emitter_mark em = ''null'' \<Longrightarrow> view (KeyQuery (shared_key_of cls r slug @ [JNull]) True) = Inr []"
  shows "get cls view json_format_date now r slug = Inr (Count 0)"
proof (cases "emitter_mark em = ''date''")
  case True
  with assms(4) obtain start "end" where
    "get_window calc now slug = Inr (start, end)"
    "view (RangeQuery (shared_key_of cls r slug @ [JString (json_format_date start)])
                     (shared_key_of cls r slug @ [JString (json_format_date end)]) True) = Inr []"
    by blast
  with True assms(1,2) show ?thesis
    by (simp add: get_def result_get_def read_rows_def)
next
  case False
  with assms(3) have n: "emitter_mark em = ''null''" by simp
  with assms(5) have "view (KeyQuery (shared_key_of cls r slug @ [JNull]) True) = Inr []" by simp
  with n assms(1,2) show ?thesis
    by (simp add: get_def result_get_def read_rows_def)
qed


section \<open>Concrete instances\<close>

lemmas ex_class_defs = ex_visits_class_def ex_offsets_only_def self_window_def self_offsets_def
  emitters_not_covered_def keys_def ex_Visits_sets

lemma ex_init: "init ex_visits_class (Timedelta (days 30)) = Inr ex_calc"
  by (simp add: init_def ex_class_defs ex_calc_def days_def)

theorem init_succeeds_iff_counterexample:
  "covered_in_spec ex_offsets_only NoWindow \<and>
   init ex_offsets_only NoWindow = Inl (NotImplementedError WindowMustBeTimedelta)"
  by (simp add: covered_in_spec_def init_def ex_class_defs)

theorem init_succeeds_iff_witness:
  "(\<exists>c. init ex_visits_class (Timedelta 30) = Inr c) \<and>
   init ex_offsets_only NoWindow = Inl (NotImplementedError WindowMustBeTimedelta) \<and>
   (\<exists>names. init ex_visits_class (Timedelta 0) = Inl (NotImplementedError (EmittersNotCovered names)) \<and>
      set names = {''all_visits''})"
proof -
  have w: "self_window ex_visits_class (Timedelta 30) = Timedelta 30"
    by (simp add: self_window_def)
  from init_succeeds_iff[of ex_visits_class "Timedelta 30"] w
  have a: "\<exists>c. init ex_visits_class (Timedelta 30) = Inr c" by simp
  have n: "self_window ex_offsets_only NoWindow = NoWindow"
    by (simp add: ex_class_defs)
  from init_succeeds_iff[of ex_offsets_only NoWindow] n
  have b: "init ex_offsets_only NoWindow = Inl (NotImplementedError WindowMustBeTimedelta)" by simp
  have z: "self_window ex_visits_class (Timedelta 0) = Timedelta 0"
    by (simp add: self_window_def)
  have d: "set (fluff_emitters (meta ex_visits_class)) - set (keys (self_offsets ex_visits_class)) = {''all_visits''}"
    by (auto simp: ex_class_defs)
  then have "\<not> set (fluff_emitters (meta ex_visits_class)) \<subseteq> set (keys (self_offsets ex_visits_class))"
    by auto
  with init_succeeds_iff[of ex_visits_class "Timedelta 0"] z d
  have c: "\<exists>names. init ex_visits_class (Timedelta 0) = Inl (NotImplementedError (EmittersNotCovered names)) \<and>
      set names = {''all_visits''}" by simp
  from a b c show ?thesis by (intro conjI)
qed

theorem get_window_resolves_counterexample:
  "init ex_visits_class (Timedelta (days 30)) = Inr ex_calc \<and>
   map_of (offsets ex_calc) ''all_visits'' = None \<and>
   in_date_range 1 \<and>
   get_window ex_calc 1 ''all_visits'' = Inl OverflowError"
  by (simp add: ex_init)
     (simp add: get_window_def date_sub_def in_date_range_def td_days_def days_def ex_calc_def)

theorem get_window_resolves_witness:
  "init ex_visits_class (Timedelta (days 30)) = Inr ex_calc \<and>
   get_window ex_calc 734769 ''all_visits'' = Inr (734739, 734769) \<and>
   get_window ex_calc 734769 ''null_visits'' = Inr (734762, 734769) \<and>
   get_window ex_calc 1 ''all_visits'' = Inl OverflowError"
proof -
  from get_window_resolves[OF ex_init, of 734769 "''all_visits''"]
  have a: "get_window ex_calc 734769 ''all_visits'' = Inr (734739, 734769)"
    by (simp add: ex_calc_def in_date_range_def td_days_def days_def)
  from get_window_resolves[OF ex_init, of 734769 "''null_visits''"]
  have b: "get_window ex_calc 734769 ''null_visits'' = Inr (734762, 734769)"
    by (simp add: ex_calc_def in_date_range_def td_days_def days_def)
  from get_window_resolves[OF ex_init, of 1 "''all_visits''"]
  have c: "get_window ex_calc 1 ''all_visits'' = Inl OverflowError"
    by (simp add: ex_calc_def in_date_range_def td_days_def days_def)
  from ex_init a b c show ?thesis by (intro conjI)
qed

lemma ex_calc_resolvable: "resolvable ex_calc"
  by (simp add: resolvable_def ex_calc_def ex_class_defs)

theorem failed_filter_gives_empty_sequences_witness:
  "resolvable ex_calc \<and>
   (\<exists>f. filter_attr (klass ex_calc) ''has_owner'' = Some f \<and> \<not> f ex_item_no_owner) \<and>
   calculate ex_calc ex_item_no_owner = Inr [(''null_visits'', []), (''all_visits'', [])]"
proof -
  have f: "\<exists>f. filter_attr (klass ex_calc) ''has_owner'' = Some f \<and> \<not> f ex_item_no_owner"
    by (simp add: ex_calc_def ex_visits_class_def ex_item_no_owner_def)
  then have "\<not> filter_item (klass ex_calc) ex_item_no_owner \<or>
         (\<exists>slug \<in> set (fluff_filters (meta (klass ex_calc))).
            \<exists>f. filter_attr (klass ex_calc) slug = Some f \<and> \<not> f ex_item_no_owner)"
    by (simp add: ex_calc_def ex_class_defs)
  from failed_filter_gives_empty_sequences[OF ex_calc_resolvable this]
  have "calculate ex_calc ex_item_no_owner = Inr [(''null_visits'', []), (''all_visits'', [])]"
    by (simp add: stored_emitter_def ex_calc_def ex_class_defs)
  with ex_calc_resolvable f show ?thesis by (intro conjI)
qed

theorem diff_of_identical_state_witness:
  "state ex_doc ''visits'' = state (ex_doc\<lparr>properties := Map.empty\<rparr>) ''visits'' \<and>
   diff ex_indicators ex_doc (Some ex_doc) = Inr None \<and>
   diff ex_indicators ex_doc (Some (ex_doc\<lparr>properties := Map.empty\<rparr>)) = Inr None"
proof -
  have a: "\<forall>calc \<in> set (keys (cls_calculators ex_indicators)). state ex_doc calc = state ex_doc calc"
    by simp
  have b: "\<forall>calc \<in> set (keys (cls_calculators ex_indicators)).
      state ex_doc calc = state (ex_doc\<lparr>properties := Map.empty\<rparr>) calc"
    by simp
  have "state ex_doc ''visits'' = state (ex_doc\<lparr>properties := Map.empty\<rparr>) ''visits''" by simp
  with diff_of_identical_state[OF a] diff_of_identical_state[OF b] show ?thesis by (intro conjI)
qed

lemma ex_calculate: "calculate ex_calc ex_item = Inr [(''null_visits'', [1]), (''all_visits'', [2, 3, 4])]"
  by (simp add: calculate_def passes_filter_def calculate_slug_def ex_calc_def ex_class_defs
      ex_item_def List.map_filter_simps)

lemma ex_doc_calculate:
  "doc_calculate ex_indicators (new_document ex_indicators ''VisitIndicators-doc1'') ex_item = Inr ex_doc"
  by (simp add: doc_calculate_def ex_indicators_def ex_calculate new_document_def getfield_def
      ex_doc_def) (simp add: ex_item_def)

theorem not_found_means_first_time_witness:
  "change_transform ex_indicators Inr (\<lambda>indicator_id. Inl ResourceNotFound) ex_item = Inr (None, ex_doc)"
proof -
  have i: "cls_name ex_indicators @ ''-'' @ get_id ex_item = ''VisitIndicators-doc1''"
    by (simp add: ex_indicators_def ex_item_def)
  have "Inr ex_item = (Inr ex_item :: py_error + string item)" by simp
  moreover have "(\<lambda>indicator_id. Inl ResourceNotFound :: py_error + (int, string) indicator_doc)
      (cls_name ex_indicators @ ''-'' @ get_id ex_item) = Inl ResourceNotFound" by simp
  ultimately have "change_transform ex_indicators Inr (\<lambda>indicator_id. Inl ResourceNotFound) ex_item =
           (case doc_calculate ex_indicators
                   (new_document ex_indicators (cls_name ex_indicators @ ''-'' @ get_id ex_item)) ex_item of
              Inl e \<Rightarrow> Inl e
            | Inr indicator \<Rightarrow> Inr (None, indicator))"
    by (rule not_found_means_first_time[THEN conjunct1])
  also have "doc_calculate ex_indicators
       (new_document ex_indicators (cls_name ex_indicators @ ''-'' @ get_id ex_item)) ex_item = Inr ex_doc"
    unfolding i by (rule ex_doc_calculate)
  finally show ?thesis by simp
qed

theorem reduced_read_of_empty_range_witness:
  "get ex_indicators (\<lambda>q. Inr []) (\<lambda>d. ''2012-09-23'') 100 ex_reader ''all_visits'' = Inr (Count 0)"
proof (rule reduced_read_of_empty_range)
  show "getitem (cls_calculators ex_indicators) (calc_name ex_reader) = Inr ex_calc"
    by (simp add: getitem_def ex_indicators_def ex_reader_def)
  show "emitter_attr (klass ex_calc) ''all_visits'' = Some (Emitter ''date'' (\<lambda>item. [2, 3, 4]) (\<lambda>r. []))"
    by (simp add: ex_calc_def ex_visits_class_def)
  show "emitter_mark (Emitter ''date'' (\<lambda>item. [2, 3, 4]) (\<lambda>r. [])) = ''date'' \<or>
        emitter_mark (Emitter ''date'' (\<lambda>item. [2, 3, 4]) (\<lambda>r. [])) = ''null''" by simp
  show "\<exists>start end. get_window ex_calc 100 ''all_visits'' = Inr (start, end) \<and>
      (Inr [] :: py_error + view_row list) = Inr []"
    by (simp add: get_window_def date_sub_def in_date_range_def td_days_def days_def ex_calc_def)
  show "(Inr [] :: py_error + view_row list) = Inr []" by simp
qed


section \<open>The entries of a diff descriptor\<close>

lemma getitem_present: "map_of d k = Some v \<Longrightarrow> getitem d k = Inr v"
  by (simp add: getitem_def)

lemma getitem_absent:
  assumes "k \<notin> set (keys d)"
  shows "getitem d k = Inl KeyError"
proof -
  from assms have "map_of d k = None" by (simp add: keys_def map_of_eq_None_iff)
  then show ?thesis by (simp add: getitem_def)
qed

lemma for_each_member:
  assumes "for_each f xs = Inr ys" and "x \<in> set xs"
  shows "\<exists>y \<in> set ys. f x = Inr y"
proof -
  from assms(1) have "list_all2 (\<lambda>x y. f x = Inr y) xs ys" by (simp add: for_each_Inr_iff)
  then show ?thesis using assms(2)
    by (induction rule: list_all2_induct) auto
qed

lemma getitem_key: "k \<in> set (keys d) \<Longrightarrow> \<exists>v. map_of d k = Some v"
  by (cases "map_of d k") (simp_all add: keys_def map_of_eq_None_iff)

lemma getitem_error: "getitem d k = Inl e \<Longrightarrow> e = KeyError"
  by (cases "map_of d k") (simp_all add: getitem_def)

lemma map_of_key: "map_of d k = Some v \<Longrightarrow> k \<in> set (keys d)"
  by (auto simp: keys_def dest: map_of_SomeD intro: rev_image_eqI)

lemma set_diff_keys:
  "set (diff_keys cls self other_doc) =
     {(calc, changed_emitters self other_doc calc) | calc.
        calc \<in> set (keys (cls_calculators cls)) \<and> changed_emitters self other_doc calc \<noteq> []}"
  by (auto simp: diff_keys_def)

lemma for_each_error_or_result:
  assumes "\<And>x. x \<in> set xs \<Longrightarrow> f x = Inl err \<or> (\<exists>y. f x = Inr y)"
  shows "for_each f xs = Inl err \<or> (\<exists>ys. for_each f xs = Inr ys)"
proof (cases "\<exists>x \<in> set xs. f x = Inl err")
  case True
  with assms have "for_each f xs = Inl err" by (rule for_each_first_error)
  then show ?thesis ..
next
  case False
  with assms have "\<And>x. x \<in> set xs \<Longrightarrow> \<exists>y. f x = Inr y" by blast
  then have "\<exists>ys. for_each f xs = Inr ys" by (rule for_each_succeeds)
  then show ?thesis ..
qed

lemma group_values_succeed:
  assumes "\<forall>name \<in> set names. props name \<noteq> None"
  shows "\<exists>gvalues. for_each (getfield props) names = Inr gvalues"
proof (rule for_each_succeeds)
  fix x assume "x \<in> set names"
  with assms obtain v where "props x = Some v" by auto
  then show "\<exists>y. getfield props x = Inr y" by (simp add: getfield_def)
qed

text \<open>The entries of a descriptor.\<close>

lemma diff_changes:
  assumes "diff cls self other_doc = Inr (Some d)"
  shows "set (indicator_changes d) =
           {ch. \<exists>calc emitter_name.
                  calc \<in> set (keys (cls_calculators cls)) \<and>
                  emitter_name \<in> set (changed_emitters self other_doc calc) \<and>
                  indicator_entry cls self calc other_doc emitter_name = Inr ch}"
proof -
  let ?dk = "diff_keys cls self other_doc"
  let ?f = "\<lambda>(calc, emitter_names). indicator_diff cls self calc emitter_names other_doc"
  from assms have ne: "?dk \<noteq> []"
    by (auto simp: diff_def Let_def split: if_splits)
  with assms obtain gvalues where "for_each (getfield (properties self)) (group_by self) = Inr gvalues"
    by (cases "for_each (getfield (properties self)) (group_by self)") (simp_all add: diff_def Let_def)
  with assms ne obtain indicators where
    ind: "for_each ?f ?dk = Inr indicators" and d: "indicator_changes d = concat indicators"
    by (cases "for_each ?f ?dk") (auto simp: diff_def Let_def)
  from ind have chunks: "set indicators = {chunk. \<exists>x \<in> set ?dk. ?f x = Inr chunk}"
    by (rule for_each_set)
  show ?thesis
  proof (rule set_eqI, rule iffI)
    fix ch assume "ch \<in> set (indicator_changes d)"
    with d obtain chunk where c: "chunk \<in> set indicators" "ch \<in> set chunk" by auto
    with chunks obtain x where x: "x \<in> set ?dk" "?f x = Inr chunk" by auto
    from x(1) obtain calc where calc: "x = (calc, changed_emitters self other_doc calc)"
      "calc \<in> set (keys (cls_calculators cls))"
      unfolding set_diff_keys by auto
    with x(2) have "for_each (indicator_entry cls self calc other_doc)
        (changed_emitters self other_doc calc) = Inr chunk"
      by (simp add: indicator_diff_def)
    then have "set chunk = {y. \<exists>e \<in> set (changed_emitters self other_doc calc).
        indicator_entry cls self calc other_doc e = Inr y}"
      by (rule for_each_set)
    with c(2) calc(2) show "ch \<in> {ch. \<exists>calc emitter_name.
                  calc \<in> set (keys (cls_calculators cls)) \<and>
                  emitter_name \<in> set (changed_emitters self other_doc calc) \<and>
                  indicator_entry cls self calc other_doc emitter_name = Inr ch}"
      by blast
  next
    fix ch assume "ch \<in> {ch. \<exists>calc emitter_name.
                  calc \<in> set (keys (cls_calculators cls)) \<and>
                  emitter_name \<in> set (changed_emitters self other_doc calc) \<and>
                  indicator_entry cls self calc other_doc emitter_name = Inr ch}"
    then obtain calc e where ce: "calc \<in> set (keys (cls_calculators cls))"
      "e \<in> set (changed_emitters self other_doc calc)"
      "indicator_entry cls self calc other_doc e = Inr ch" by blast
    from ce(2) have "changed_emitters self other_doc calc \<noteq> []" by auto
    with ce(1) have in_dk: "(calc, changed_emitters self other_doc calc) \<in> set ?dk"
      unfolding set_diff_keys by blast
    from ind in_dk have "\<exists>chunk \<in> set indicators.
        ?f (calc, changed_emitters self other_doc calc) = Inr chunk"
      by (rule for_each_member)
    then obtain chunk where chunk: "chunk \<in> set indicators"
      "?f (calc, changed_emitters self other_doc calc) = Inr chunk" by blast
    from chunk(2) have "for_each (indicator_entry cls self calc other_doc)
        (changed_emitters self other_doc calc) = Inr chunk"
      by (simp add: indicator_diff_def)
    then have "set chunk = {y. \<exists>e \<in> set (changed_emitters self other_doc calc).
        indicator_entry cls self calc other_doc e = Inr y}"
      by (rule for_each_set)
    with ce(2,3) have "ch \<in> set chunk" by blast
    with chunk(1) d show "ch \<in> set (indicator_changes d)" by auto
  qed
qed

lemma diff_returns:
  assumes "\<forall>name \<in> set (group_by self). properties self name \<noteq> None"
    and "\<And>calc emitter_name. calc \<in> set (keys (cls_calculators cls)) \<Longrightarrow>
           emitter_name \<in> set (changed_emitters self other_doc calc) \<Longrightarrow>
           \<exists>ch. indicator_entry cls self calc other_doc emitter_name = Inr ch"
    and "diff_keys cls self other_doc \<noteq> []"
  shows "\<exists>d. diff cls self other_doc = Inr (Some d)"
proof -
  let ?dk = "diff_keys cls self other_doc"
  let ?f = "\<lambda>(calc, emitter_names). indicator_diff cls self calc emitter_names other_doc"
  from assms(1) obtain gvalues where g: "for_each (getfield (properties self)) (group_by self) = Inr gvalues"
    using group_values_succeed by blast
  have "\<exists>ys. for_each ?f ?dk = Inr ys"
  proof (rule for_each_succeeds)
    fix x assume "x \<in> set ?dk"
    then obtain calc where calc: "x = (calc, changed_emitters self other_doc calc)"
      "calc \<in> set (keys (cls_calculators cls))"
      unfolding set_diff_keys by auto
    have "\<exists>ys. for_each (indicator_entry cls self calc other_doc)
        (changed_emitters self other_doc calc) = Inr ys"
      by (rule for_each_succeeds) (rule assms(2)[OF calc(2)])
    with calc(1) show "\<exists>y. ?f x = Inr y" by (simp add: indicator_diff_def)
  qed
  then obtain indicators where "for_each ?f ?dk = Inr indicators" ..
  with g assms(3) show ?thesis by (simp add: diff_def Let_def)
qed


section \<open>The first diff of a document\<close>

lemma emitter_type_resolves:
  assumes "well_formed cls self"
    and "calc \<in> set (keys (cls_calculators cls))"
    and "emitter_name \<in> set (keys (state self calc))"
  shows "\<exists>mark. emitter_type_of cls calc emitter_name = Inr mark"
proof -
  from assms(2) have "\<exists>c. map_of (cls_calculators cls) calc = Some c" by (rule getitem_key)
  then obtain c where c: "map_of (cls_calculators cls) calc = Some c" ..
  then have "(calc, c) \<in> set (cls_calculators cls)" by (rule map_of_SomeD)
  with assms(1,3) have "emitter_attr (klass c) emitter_name \<noteq> None"
    by (auto simp: well_formed_def)
  then obtain em where "emitter_attr (klass c) emitter_name = Some em" by auto
  with c show ?thesis by (simp add: emitter_type_of_def getitem_def)
qed

lemma indicator_entry_first:
  assumes "well_formed cls self"
    and "calc \<in> set (keys (cls_calculators cls))"
    and "map_of (state self calc) emitter_name = Some vs"
  shows "\<exists>mark. indicator_entry cls self calc None emitter_name =
           Inr \<lparr>calculator = calc, emitter = emitter_name, emitter_type = mark, values_diff = vs\<rparr>"
proof -
  from assms(3) have "emitter_name \<in> set (keys (state self calc))" by (rule map_of_key)
  with assms(1,2) have "\<exists>mark. emitter_type_of cls calc emitter_name = Inr mark"
    by (rule emitter_type_resolves)
  then obtain mark where "emitter_type_of cls calc emitter_name = Inr mark" ..
  moreover from assms(3) have "getitem (state self calc) emitter_name = Inr vs"
    by (rule getitem_present)
  ultimately show ?thesis by (simp add: indicator_entry_def)
qed

lemma changed_emitters_first:
  "set (changed_emitters self None calc) = {e. \<exists>vs. (e, vs) \<in> set (state self calc) \<and> vs \<noteq> []}"
  by (auto simp: changed_emitters_def intro: rev_image_eqI)

text \<open>
  C5. A well-formed document with at least one non-empty emitter sequence, diffed against no
  previous version, gives a descriptor, and for every calculator and every emitter with a
  non-empty sequence the descriptor has an entry whose values are that whole sequence.
\<close>

theorem first_diff_reports_every_nonempty_emitter:
  assumes "well_formed cls self"
    and "\<exists>calc \<in> set (keys (cls_calculators cls)).
           \<exists>emitter_name vs. map_of (state self calc) emitter_name = Some vs \<and> vs \<noteq> []"
  shows "\<exists>d. diff cls self None = Inr (Some d) \<and>
           (\<forall>calc \<in> set (keys (cls_calculators cls)).
              \<forall>emitter_name vs. map_of (state self calc) emitter_name = Some vs \<and> vs \<noteq> [] \<longrightarrow>
                (\<exists>ch \<in> set (indicator_changes d).
                   calculator ch = calc \<and> emitter ch = emitter_name \<and> values_diff ch = vs))"
proof -
  have member: "emitter_name \<in> set (changed_emitters self None calc)"
    if "map_of (state self calc) emitter_name = Some vs" "vs \<noteq> []" for calc emitter_name vs
  proof -
    from that(1) have "(emitter_name, vs) \<in> set (state self calc)" by (rule map_of_SomeD)
    with that(2) show ?thesis unfolding changed_emitters_first by blast
  qed
  from assms(2) obtain calc0 e0 vs0 where w: "calc0 \<in> set (keys (cls_calculators cls))"
    "map_of (state self calc0) e0 = Some vs0" "vs0 \<noteq> []" by blast
  from w(2,3) have "e0 \<in> set (changed_emitters self None calc0)" by (rule member)
  then have "changed_emitters self None calc0 \<noteq> []" by auto
  with w(1) have "(calc0, changed_emitters self None calc0) \<in> set (diff_keys cls self None)"
    unfolding set_diff_keys by blast
  then have ne: "diff_keys cls self None \<noteq> []" by auto
  have entries: "\<exists>ch. indicator_entry cls self calc None emitter_name = Inr ch"
    if "calc \<in> set (keys (cls_calculators cls))"
      "emitter_name \<in> set (changed_emitters self None calc)" for calc emitter_name
  proof -
    from that(2) have "emitter_name \<in> set (keys (state self calc))"
      unfolding changed_emitters_first by (auto simp: keys_def intro: rev_image_eqI)
    then have "\<exists>vs. map_of (state self calc) emitter_name = Some vs" by (rule getitem_key)
    then obtain vs where "map_of (state self calc) emitter_name = Some vs" ..
    with assms(1) that(1) have "\<exists>mark. indicator_entry cls self calc None emitter_name =
           Inr \<lparr>calculator = calc, emitter = emitter_name, emitter_type = mark, values_diff = vs\<rparr>"
      by (rule indicator_entry_first)
    then show ?thesis by blast
  qed
  from assms(1) have "\<forall>name \<in> set (group_by self). properties self name \<noteq> None"
    by (simp add: well_formed_def)
  then have "\<exists>d. diff cls self None = Inr (Some d)"
    using entries ne by (rule diff_returns)
  then obtain d where d: "diff cls self None = Inr (Some d)" ..
  have "\<exists>ch \<in> set (indicator_changes d).
          calculator ch = calc \<and> emitter ch = emitter_name \<and> values_diff ch = vs"
    if "calc \<in> set (keys (cls_calculators cls))"
      "map_of (state self calc) emitter_name = Some vs" "vs \<noteq> []" for calc emitter_name vs
  proof -
    from assms(1) that(1,2) have "\<exists>mark. indicator_entry cls self calc None emitter_name =
           Inr \<lparr>calculator = calc, emitter = emitter_name, emitter_type = mark, values_diff = vs\<rparr>"
      by (rule indicator_entry_first)
    then obtain mark where
      e: "indicator_entry cls self calc None emitter_name =
           Inr \<lparr>calculator = calc, emitter = emitter_name, emitter_type = mark, values_diff = vs\<rparr>" ..
    from that(2,3) have "emitter_name \<in> set (changed_emitters self None calc)" by (rule member)
    with that(1) e have
      "\<lparr>calculator = calc, emitter = emitter_name, emitter_type = mark, values_diff = vs\<rparr>
         \<in> set (indicator_changes d)"
      unfolding diff_changes[OF d] by blast
    then show ?thesis by (rule rev_bexI) simp
  qed
  then have "\<forall>calc \<in> set (keys (cls_calculators cls)).
              \<forall>emitter_name vs. map_of (state self calc) emitter_name = Some vs \<and> vs \<noteq> [] \<longrightarrow>
                (\<exists>ch \<in> set (indicator_changes d).
                   calculator ch = calc \<and> emitter ch = emitter_name \<and> values_diff ch = vs)"
    by (intro ballI allI impI) (elim conjE)
  with d show ?thesis by (intro exI conjI)
qed


lemma ex_doc_well_formed: "well_formed ex_indicators ex_doc"
  by (simp add: well_formed_def ex_indicators_def ex_doc_def ex_calc_def ex_visits_class_def keys_def)

theorem first_diff_reports_every_nonempty_emitter_witness:
  "well_formed ex_indicators ex_doc \<and>
   map_of (state ex_doc ''visits'') ''all_visits'' = Some [2, 3, 4] \<and>
   (\<exists>d. diff ex_indicators ex_doc None = Inr (Some d) \<and>
      (\<exists>ch \<in> set (indicator_changes d).
         calculator ch = ''visits'' \<and> emitter ch = ''all_visits'' \<and> values_diff ch = [2, 3, 4]))"
proof -
  have k: "''visits'' \<in> set (keys (cls_calculators ex_indicators))"
    by (simp add: ex_indicators_def keys_def)
  have m: "map_of (state ex_doc ''visits'') ''all_visits'' = Some [2, 3, 4]"
    by (simp add: ex_doc_def)
  have n: "\<exists>calc \<in> set (keys (cls_calculators ex_indicators)).
           \<exists>emitter_name vs. map_of (state ex_doc calc) emitter_name = Some vs \<and> vs \<noteq> []"
    by (rule bexI[OF _ k], rule exI[of _ "''all_visits''"], rule exI[of _ "[2, 3, 4]"]) (simp add: m)
  from first_diff_reports_every_nonempty_emitter[OF ex_doc_well_formed n]
  obtain d where d: "diff ex_indicators ex_doc None = Inr (Some d)"
    and all: "\<forall>calc \<in> set (keys (cls_calculators ex_indicators)).
              \<forall>emitter_name vs. map_of (state ex_doc calc) emitter_name = Some vs \<and> vs \<noteq> [] \<longrightarrow>
                (\<exists>ch \<in> set (indicator_changes d).
                   calculator ch = calc \<and> emitter ch = emitter_name \<and> values_diff ch = vs)"
    by (elim exE conjE)
  from all k have "map_of (state ex_doc ''visits'') ''all_visits'' = Some [2, 3, 4] \<and> [2, 3, 4::int] \<noteq> [] \<longrightarrow>
      (\<exists>ch \<in> set (indicator_changes d).
         calculator ch = ''visits'' \<and> emitter ch = ''all_visits'' \<and> values_diff ch = [2, 3, 4])"
    by (elim ballE[of _ _ "''visits''"] allE[of _ "''all_visits''"] allE[of _ "[2, 3, 4]"]) simp_all
  with m have "\<exists>ch \<in> set (indicator_changes d).
         calculator ch = ''visits'' \<and> emitter ch = ''all_visits'' \<and> values_diff ch = [2, 3, 4]"
    by simp
  with d have "\<exists>d. diff ex_indicators ex_doc None = Inr (Some d) \<and>
      (\<exists>ch \<in> set (indicator_changes d).
         calculator ch = ''visits'' \<and> emitter ch = ''all_visits'' \<and> values_diff ch = [2, 3, 4])"
    by (intro exI conjI)
  with ex_doc_well_formed m show ?thesis by (intro conjI)
qed


section \<open>The diff against a previous version\<close>

lemma map_of_nonempty: "map_of d k = Some v \<Longrightarrow> d \<noteq> []"
  by auto

lemma set_shallow_dict_diff:
  assumes "left \<noteq> []" and "right \<noteq> []"
  shows "\<exists>ks. shallow_dict_diff left right = Some ks \<and>
           set ks = (set (keys right) - set (keys left)) \<union> (set (keys left) - set (keys right)) \<union>
                    {k \<in> set (keys left) \<inter> set (keys right). map_of left k \<noteq> map_of right k}"
  using assms by (auto simp: shallow_dict_diff_def Let_def)

lemma shallow_changed:
  assumes "map_of left k = Some a" and "map_of right k = Some b" and "a \<noteq> b"
  shows "\<exists>ks. shallow_dict_diff left right = Some ks \<and> k \<in> set ks"
proof -
  from assms(1) have l: "left \<noteq> []" by (rule map_of_nonempty)
  from assms(2) have r: "right \<noteq> []" by (rule map_of_nonempty)
  from assms(1) have kl: "k \<in> set (keys left)" by (rule map_of_key)
  from assms(2) have kr: "k \<in> set (keys right)" by (rule map_of_key)
  from set_shallow_dict_diff[OF l r] obtain ks where
    ks: "shallow_dict_diff left right = Some ks"
    "set ks = (set (keys right) - set (keys left)) \<union> (set (keys left) - set (keys right)) \<union>
                    {k \<in> set (keys left) \<inter> set (keys right). map_of left k \<noteq> map_of right k}"
    by (elim exE conjE)
  from assms kl kr have "k \<in> {k \<in> set (keys left) \<inter> set (keys right). map_of left k \<noteq> map_of right k}"
    by simp
  with ks(2) have "k \<in> set ks" by simp
  with ks(1) show ?thesis by (intro exI conjI)
qed

lemma shallow_subset:
  assumes "shallow_dict_diff left right = Some ks"
  shows "set ks \<subseteq> set (keys left) \<union> set (keys right)"
proof (cases "left = [] \<or> right = []")
  case True
  with assms show ?thesis by (auto simp: shallow_dict_diff_def split: if_splits)
next
  case False
  then have "left \<noteq> []" "right \<noteq> []" by simp_all
  from set_shallow_dict_diff[OF this] assms show ?thesis by auto
qed

lemma shallow_keys_differ:
  assumes "set (keys left) \<noteq> set (keys right)"
  shows "\<exists>ks. shallow_dict_diff left right = Some ks \<and>
           (set (keys right) - set (keys left)) \<union> (set (keys left) - set (keys right)) \<subseteq> set ks"
proof (cases "left = [] \<or> right = []")
  case True
  with assms show ?thesis by (auto simp: shallow_dict_diff_def keys_def)
next
  case False
  then have "left \<noteq> []" "right \<noteq> []" by simp_all
  from set_shallow_dict_diff[OF this] show ?thesis by auto
qed

lemma changed_emitters_previous:
  "emitter_name \<in> set (changed_emitters self (Some other) calc) \<longleftrightarrow>
     (\<exists>ks. shallow_dict_diff (state self calc) (state other calc) = Some ks \<and> emitter_name \<in> set ks)"
  by (cases "shallow_dict_diff (state self calc) (state other calc)")
     (simp_all add: changed_emitters_def)

lemma indicator_entry_names:
  assumes "indicator_entry cls self calc other_doc emitter_name = Inr ch"
  shows "calculator ch = calc \<and> emitter ch = emitter_name"
proof (cases "emitter_type_of cls calc emitter_name")
  case (Inl e)
  with assms show ?thesis by (simp add: indicator_entry_def split: sum.splits)
next
  case (Inr mark)
  with assms show ?thesis by (auto simp: indicator_entry_def split: sum.splits)
qed

lemma indicator_entry_previous:
  assumes "well_formed cls self"
    and "calc \<in> set (keys (cls_calculators cls))"
    and "map_of (state self calc) emitter_name = Some mine"
    and "map_of (state other calc) emitter_name = Some theirs"
  shows "\<exists>mark. indicator_entry cls self calc (Some other) emitter_name =
           Inr \<lparr>calculator = calc, emitter = emitter_name, emitter_type = mark,
                values_diff = set_minus mine theirs\<rparr>"
proof -
  from assms(3) have "emitter_name \<in> set (keys (state self calc))" by (rule map_of_key)
  with assms(1,2) have "\<exists>mark. emitter_type_of cls calc emitter_name = Inr mark"
    by (rule emitter_type_resolves)
  then obtain mark where "emitter_type_of cls calc emitter_name = Inr mark" ..
  moreover from assms(3) have "getitem (state self calc) emitter_name = Inr mine"
    by (rule getitem_present)
  moreover from assms(4) have "getitem (state other calc) emitter_name = Inr theirs"
    by (rule getitem_present)
  ultimately show ?thesis by (simp add: indicator_entry_def)
qed

lemma indicator_entry_missing:
  assumes "emitter_name \<notin> set (keys (state self calc)) \<or> emitter_name \<notin> set (keys (state other calc))"
  shows "indicator_entry cls self calc (Some other) emitter_name = Inl KeyError"
proof (cases "emitter_name \<in> set (keys (state self calc))")
  case True
  then have "\<exists>v. map_of (state self calc) emitter_name = Some v" by (rule getitem_key)
  then obtain mine where "map_of (state self calc) emitter_name = Some mine" ..
  then have "getitem (state self calc) emitter_name = Inr mine" by (rule getitem_present)
  moreover from True assms have "emitter_name \<notin> set (keys (state other calc))" by simp
  then have "getitem (state other calc) emitter_name = Inl KeyError" by (rule getitem_absent)
  ultimately show ?thesis by (simp add: indicator_entry_def)
next
  case False
  then have "getitem (state self calc) emitter_name = Inl KeyError" by (rule getitem_absent)
  then show ?thesis by (simp add: indicator_entry_def)
qed

lemma set_set_minus: "set (set_minus xs ys) = set xs - set ys \<and> distinct (set_minus xs ys)"
  by (auto simp: set_minus_def)

text \<open>
  What \<^verbatim>\<open>_indicator_diff\<close> computes with a previous version. When the current document
  fits its class and both versions have the same emitter names for every calculator,
  \<^verbatim>\<open>diff\<close> returns a descriptor; for an emitter whose two sequences differ it has an
  entry, and the values of that entry are the values of the current sequence that are not in
  the previous one, each once.
\<close>

lemma changed_emitter_values_are_added_values:
  assumes "well_formed cls self"
    and "\<forall>c \<in> set (keys (cls_calculators cls)). set (keys (state self c)) = set (keys (state other c))"
    and "calc \<in> set (keys (cls_calculators cls))"
    and "map_of (state self calc) emitter_name = Some mine"
    and "map_of (state other calc) emitter_name = Some theirs"
    and "mine \<noteq> theirs"
  shows "\<exists>d. diff cls self (Some other) = Inr (Some d) \<and>
           (\<exists>ch \<in> set (indicator_changes d). calculator ch = calc \<and> emitter ch = emitter_name) \<and>
           (\<forall>ch \<in> set (indicator_changes d).
              calculator ch = calc \<and> emitter ch = emitter_name \<longrightarrow>
                set (values_diff ch) = set mine - set theirs \<and> distinct (values_diff ch))"
proof -
  from assms(4,5,6) have "\<exists>ks. shallow_dict_diff (state self calc) (state other calc) = Some ks \<and>
      emitter_name \<in> set ks" by (rule shallow_changed)
  then have member: "emitter_name \<in> set (changed_emitters self (Some other) calc)"
    by (simp add: changed_emitters_previous)
  then have "changed_emitters self (Some other) calc \<noteq> []" by auto
  with assms(3) have "(calc, changed_emitters self (Some other) calc) \<in> set (diff_keys cls self (Some other))"
    unfolding set_diff_keys by blast
  then have ne: "diff_keys cls self (Some other) \<noteq> []" by auto
  have entries: "\<exists>ch. indicator_entry cls self c (Some other) e = Inr ch"
    if "c \<in> set (keys (cls_calculators cls))" "e \<in> set (changed_emitters self (Some other) c)" for c e
  proof -
    from that(2) obtain ks where ks: "shallow_dict_diff (state self c) (state other c) = Some ks"
      "e \<in> set ks" unfolding changed_emitters_previous by (elim exE conjE)
    from ks(1) have "set ks \<subseteq> set (keys (state self c)) \<union> set (keys (state other c))"
      by (rule shallow_subset)
    with ks(2) assms(2) that(1) have both: "e \<in> set (keys (state self c))" "e \<in> set (keys (state other c))"
      by auto
    from both(1) have "\<exists>v. map_of (state self c) e = Some v" by (rule getitem_key)
    then obtain a where a: "map_of (state self c) e = Some a" ..
    from both(2) have "\<exists>v. map_of (state other c) e = Some v" by (rule getitem_key)
    then obtain b where b: "map_of (state other c) e = Some b" ..
    from assms(1) that(1) a b have "\<exists>mark. indicator_entry cls self c (Some other) e =
           Inr \<lparr>calculator = c, emitter = e, emitter_type = mark, values_diff = set_minus a b\<rparr>"
      by (rule indicator_entry_previous)
    then show ?thesis by blast
  qed
  from assms(1) have "\<forall>name \<in> set (group_by self). properties self name \<noteq> None"
    by (simp add: well_formed_def)
  then have "\<exists>d. diff cls self (Some other) = Inr (Some d)"
    using entries ne by (rule diff_returns)
  then obtain d where d: "diff cls self (Some other) = Inr (Some d)" ..
  from assms(1,3,4,5) have "\<exists>mark. indicator_entry cls self calc (Some other) emitter_name =
           Inr \<lparr>calculator = calc, emitter = emitter_name, emitter_type = mark,
                values_diff = set_minus mine theirs\<rparr>"
    by (rule indicator_entry_previous)
  then obtain mark where
    e: "indicator_entry cls self calc (Some other) emitter_name =
           Inr \<lparr>calculator = calc, emitter = emitter_name, emitter_type = mark,
                values_diff = set_minus mine theirs\<rparr>" ..
  with assms(3) member have
    "\<lparr>calculator = calc, emitter = emitter_name, emitter_type = mark,
       values_diff = set_minus mine theirs\<rparr> \<in> set (indicator_changes d)"
    unfolding diff_changes[OF d] by blast
  then have ex: "\<exists>ch \<in> set (indicator_changes d). calculator ch = calc \<and> emitter ch = emitter_name"
    by (rule rev_bexI) simp
  have "set (values_diff ch) = set mine - set theirs \<and> distinct (values_diff ch)"
    if "ch \<in> set (indicator_changes d)" "calculator ch = calc \<and> emitter ch = emitter_name" for ch
  proof -
    from that(1) obtain c' e' where ce: "indicator_entry cls self c' (Some other) e' = Inr ch"
      unfolding diff_changes[OF d] by blast
    then have "calculator ch = c' \<and> emitter ch = e'" by (rule indicator_entry_names)
    with that(2) have "c' = calc" "e' = emitter_name" by simp_all
    with ce e have "ch = \<lparr>calculator = calc, emitter = emitter_name, emitter_type = mark,
                values_diff = set_minus mine theirs\<rparr>" by simp
    then have "values_diff ch = set_minus mine theirs" by simp
    then show ?thesis by (simp add: set_set_minus)
  qed
  then have all: "\<forall>ch \<in> set (indicator_changes d).
              calculator ch = calc \<and> emitter ch = emitter_name \<longrightarrow>
                set (values_diff ch) = set mine - set theirs \<and> distinct (values_diff ch)"
    by (intro ballI impI)
  from d ex all show ?thesis by (intro exI conjI)
qed

lemma ex_previous_diff:
  "diff ex_indicators ex_doc (Some ex_previous) =
     Inr (Some \<lparr>database = ''fluff'', doc_type = ''VisitIndicators'', group_names = [''domain''],
                 group_values = [''test''],
                 indicator_changes =
                   [\<lparr>calculator = ''visits'', emitter = ''all_visits'', emitter_type = ''date'',
                      values_diff = [4]\<rparr>]\<rparr>)"
  by (simp add: diff_def diff_keys_def changed_emitters_def shallow_dict_diff_def indicator_diff_def
      indicator_entry_def emitter_type_of_def getitem_def set_minus_def getfield_def keys_def
      ex_indicators_def ex_doc_def ex_previous_def ex_calc_def ex_visits_class_def Let_def)

lemma ex_removal_diff:
  "diff ex_indicators ex_after_removal (Some ex_previous) =
     Inr (Some \<lparr>database = ''fluff'', doc_type = ''VisitIndicators'', group_names = [''domain''],
                 group_values = [''test''],
                 indicator_changes =
                   [\<lparr>calculator = ''visits'', emitter = ''all_visits'', emitter_type = ''date'',
                      values_diff = []\<rparr>]\<rparr>)"
  by (simp add: diff_def diff_keys_def changed_emitters_def shallow_dict_diff_def indicator_diff_def
      indicator_entry_def emitter_type_of_def getitem_def set_minus_def getfield_def keys_def
      ex_indicators_def ex_doc_def ex_previous_def ex_after_removal_def ex_calc_def
      ex_visits_class_def Let_def)

text \<open>
  C1. The specification gives the values of a changed emitter as the symmetric set difference
  of the two sequences, and the docstring of \<^verbatim>\<open>diff\<close> promises the values that were
  added, removed or changed. The code evaluates otherwise: for the previous sequence [1,2,3]
  and the current sequence [2,3,4] the values of the entry are [4], where the symmetric
  difference is {1,4}; and when a value is only removed (previous [1,2,3], current [2,3]) the
  entry has no values at all.
\<close>

theorem removed_values_are_not_reported:
  "state ex_previous ''visits'' = [(''null_visits'', [1]), (''all_visits'', [1, 2, 3])] \<and>
   state ex_doc ''visits'' = [(''null_visits'', [1]), (''all_visits'', [2, 3, 4])] \<and>
   diff ex_indicators ex_doc (Some ex_previous) =
     Inr (Some \<lparr>database = ''fluff'', doc_type = ''VisitIndicators'', group_names = [''domain''],
                 group_values = [''test''],
                 indicator_changes =
                   [\<lparr>calculator = ''visits'', emitter = ''all_visits'', emitter_type = ''date'',
                      values_diff = [4]\<rparr>]\<rparr>) \<and>
   set [4 :: int] \<noteq> symmetric_difference [2, 3, 4] [1, 2, 3] \<and>
   symmetric_difference [2, 3, 4] [1, 2, 3] = {1, 4 :: int} \<and>
   state ex_after_removal ''visits'' = [(''null_visits'', [1]), (''all_visits'', [2, 3])] \<and>
   diff ex_indicators ex_after_removal (Some ex_previous) =
     Inr (Some \<lparr>database = ''fluff'', doc_type = ''VisitIndicators'', group_names = [''domain''],
                 group_values = [''test''],
                 indicator_changes =
                   [\<lparr>calculator = ''visits'', emitter = ''all_visits'', emitter_type = ''date'',
                      values_diff = []\<rparr>]\<rparr>) \<and>
   symmetric_difference [2, 3] [1, 2, 3] = {1 :: int}"
  by (simp add: ex_previous_diff ex_removal_diff)
     (auto simp: symmetric_difference_def ex_doc_def ex_previous_def ex_after_removal_def)

lemma entry_error_or_result:
  assumes "well_formed cls self" and "c \<in> set (keys (cls_calculators cls))"
  shows "indicator_entry cls self c (Some other) e = Inl KeyError \<or>
         (\<exists>ch. indicator_entry cls self c (Some other) e = Inr ch)"
proof (cases "e \<in> set (keys (state self c)) \<and> e \<in> set (keys (state other c))")
  case True
  then have "\<exists>v. map_of (state self c) e = Some v" by (intro getitem_key) simp
  then obtain a where a: "map_of (state self c) e = Some a" ..
  from True have "\<exists>v. map_of (state other c) e = Some v" by (intro getitem_key) simp
  then obtain b where b: "map_of (state other c) e = Some b" ..
  from assms a b have "\<exists>mark. indicator_entry cls self c (Some other) e =
           Inr \<lparr>calculator = c, emitter = e, emitter_type = mark, values_diff = set_minus a b\<rparr>"
    by (rule indicator_entry_previous)
  then show ?thesis by blast
next
  case False
  then have "e \<notin> set (keys (state self c)) \<or> e \<notin> set (keys (state other c))" by simp
  then have "indicator_entry cls self c (Some other) e = Inl KeyError"
    by (rule indicator_entry_missing)
  then show ?thesis ..
qed

text \<open>
  C10. When, for some calculator, the current and the previous document do not have the same
  emitter names, \<^verbatim>\<open>diff\<close> raises instead of returning a descriptor; for a current
  document that fits its class the exception is the \<^verbatim>\<open>KeyError\<close> of indexing one of
  the two states by a name it does not have.
\<close>

theorem different_emitter_names_raise:
  assumes "calc \<in> set (keys (cls_calculators cls))"
    and "set (keys (state self calc)) \<noteq> set (keys (state other calc))"
  shows "(\<exists>err. diff cls self (Some other) = Inl err) \<and>
         (well_formed cls self \<longrightarrow> diff cls self (Some other) = Inl KeyError)"
proof -
  let ?dk = "diff_keys cls self (Some other)"
  let ?f = "\<lambda>(c, emitter_names). indicator_diff cls self c emitter_names (Some other)"
  let ?names = "changed_emitters self (Some other) calc"
  from assms(2) have "\<exists>ks. shallow_dict_diff (state self calc) (state other calc) = Some ks \<and>
      (set (keys (state other calc)) - set (keys (state self calc))) \<union>
      (set (keys (state self calc)) - set (keys (state other calc))) \<subseteq> set ks"
    by (rule shallow_keys_differ)
  then obtain ks where ks: "shallow_dict_diff (state self calc) (state other calc) = Some ks"
    "(set (keys (state other calc)) - set (keys (state self calc))) \<union>
      (set (keys (state self calc)) - set (keys (state other calc))) \<subseteq> set ks"
    by (elim exE conjE)
  from assms(2) obtain e where e: "e \<in> (set (keys (state other calc)) - set (keys (state self calc))) \<union>
      (set (keys (state self calc)) - set (keys (state other calc)))" by blast
  with ks(2) have "e \<in> set ks" by (rule rev_subsetD[rotated])
  with ks(1) have member: "e \<in> set ?names" by (simp add: changed_emitters_previous)
  from e have "e \<notin> set (keys (state self calc)) \<or> e \<notin> set (keys (state other calc))" by blast
  then have bad: "indicator_entry cls self calc (Some other) e = Inl KeyError"
    by (rule indicator_entry_missing)
  from member have "?names \<noteq> []" by auto
  with assms(1) have in_dk: "(calc, ?names) \<in> set ?dk" unfolding set_diff_keys by blast
  then have ne: "?dk \<noteq> []" by auto
  have first: "\<exists>err. diff cls self (Some other) = Inl err"
  proof -
    from member bad have "\<exists>x \<in> set ?names. \<exists>err. indicator_entry cls self calc (Some other) x = Inl err"
      by blast
    then have "\<exists>err. for_each (indicator_entry cls self calc (Some other)) ?names = Inl err"
      by (rule for_each_some_error)
    then have "\<exists>err. ?f (calc, ?names) = Inl err" by (simp add: indicator_diff_def)
    with in_dk have "\<exists>x \<in> set ?dk. \<exists>err. ?f x = Inl err" by (rule rev_bexI)
    then have "\<exists>err. for_each ?f ?dk = Inl err" by (rule for_each_some_error)
    then obtain err where err: "for_each ?f ?dk = Inl err" ..
    show ?thesis
    proof (cases "for_each (getfield (properties self)) (group_by self)")
      case (Inl e')
      with ne have "diff cls self (Some other) = Inl e'" by (simp add: diff_def Let_def)
      then show ?thesis ..
    next
      case (Inr gvalues)
      with ne err have "diff cls self (Some other) = Inl err" by (simp add: diff_def Let_def)
      then show ?thesis ..
    qed
  qed
  have second: "diff cls self (Some other) = Inl KeyError" if wf: "well_formed cls self"
  proof -
    from wf have "\<forall>name \<in> set (group_by self). properties self name \<noteq> None"
      by (simp add: well_formed_def)
    then have "\<exists>gvalues. for_each (getfield (properties self)) (group_by self) = Inr gvalues"
      by (rule group_values_succeed)
    then obtain gvalues where g: "for_each (getfield (properties self)) (group_by self) = Inr gvalues" ..
    have each: "?f x = Inl KeyError \<or> (\<exists>y. ?f x = Inr y)" if "x \<in> set ?dk" for x
    proof -
      from that obtain c where c: "x = (c, changed_emitters self (Some other) c)"
        "c \<in> set (keys (cls_calculators cls))"
        unfolding set_diff_keys by auto
      have "for_each (indicator_entry cls self c (Some other)) (changed_emitters self (Some other) c) = Inl KeyError \<or>
            (\<exists>ys. for_each (indicator_entry cls self c (Some other)) (changed_emitters self (Some other) c) = Inr ys)"
        by (rule for_each_error_or_result) (rule entry_error_or_result[OF wf c(2)])
      with c(1) show ?thesis by (simp add: indicator_diff_def)
    qed
    have "for_each (indicator_entry cls self calc (Some other)) ?names = Inl KeyError"
    proof (rule for_each_first_error)
      fix x assume "x \<in> set ?names"
      show "indicator_entry cls self calc (Some other) x = Inl KeyError \<or>
            (\<exists>y. indicator_entry cls self calc (Some other) x = Inr y)"
        by (rule entry_error_or_result[OF wf assms(1)])
    next
      from member bad show "\<exists>x \<in> set ?names. indicator_entry cls self calc (Some other) x = Inl KeyError"
        by (rule rev_bexI)
    qed
    then have "?f (calc, ?names) = Inl KeyError" by (simp add: indicator_diff_def)
    with in_dk have "\<exists>x \<in> set ?dk. ?f x = Inl KeyError" by (rule rev_bexI)
    with each have "for_each ?f ?dk = Inl KeyError" by (rule for_each_first_error)
    with g ne show ?thesis by (simp add: diff_def Let_def)
  qed
  from first second show ?thesis by (intro conjI impI)
qed

theorem different_emitter_names_raise_witness:
  "''visits'' \<in> set (keys (cls_calculators ex_indicators)) \<and>
   set (keys (state ex_doc ''visits'')) \<noteq> set (keys (state ex_stored_before ''visits'')) \<and>
   well_formed ex_indicators ex_doc \<and>
   diff ex_indicators ex_doc (Some ex_stored_before) = Inl KeyError"
proof -
  have k: "''visits'' \<in> set (keys (cls_calculators ex_indicators))"
    by (simp add: ex_indicators_def keys_def)
  have n: "set (keys (state ex_doc ''visits'')) \<noteq> set (keys (state ex_stored_before ''visits''))"
    by (simp add: ex_doc_def ex_stored_before_def keys_def)
  from different_emitter_names_raise[OF k n] ex_doc_well_formed
  have "diff ex_indicators ex_doc (Some ex_stored_before) = Inl KeyError" by simp
  with k n ex_doc_well_formed show ?thesis by (intro conjI)
qed


section \<open>Recomputing leaves a document that fits its class\<close>

lemma set_map_filter_id: "set (List.map_filter (\<lambda>entry. entry) xs) = {p. Some p \<in> set xs}"
  by (induction xs) (auto simp: List.map_filter_simps split: option.splits)

lemma calculate_keys:
  assumes "calculate c item = Inr vals" and "emitter_name \<in> set (keys vals)"
  shows "emitter_attr (klass c) emitter_name \<noteq> None"
proof -
  from assms(1) obtain passes entries where
    entries: "for_each (calculate_slug c passes item) (fluff_emitters (meta (klass c))) = Inr entries"
    and vals: "vals = List.map_filter (\<lambda>entry. entry) entries"
    by (auto simp: calculate_def split: sum.splits)
  from assms(2) obtain vs where "(emitter_name, vs) \<in> set vals" by (auto simp: keys_def)
  with vals have "Some (emitter_name, vs) \<in> set entries" by (simp add: set_map_filter_id)
  moreover from entries have "set entries =
      {y. \<exists>x \<in> set (fluff_emitters (meta (klass c))). calculate_slug c passes item x = Inr y}"
    by (rule for_each_set)
  ultimately obtain slug where "calculate_slug c passes item slug = Inr (Some (emitter_name, vs))"
    by blast
  then show ?thesis
    by (cases "emitter_attr (klass c) slug") (auto simp: calculate_slug_def split: if_splits)
qed

lemma calculate_all_state:
  assumes "calculate_all calcs item self = Inr self'" and "distinct (keys calcs)"
  shows "(\<forall>(calc, c) \<in> set calcs. calculate c item = Inr (state self' calc)) \<and>
         (\<forall>calc. calc \<notin> set (keys calcs) \<longrightarrow> state self' calc = state self calc) \<and>
         properties self' = properties self"
  using assms
proof (induction calcs item self rule: calculate_all.induct)
  case (1 item self)
  then show ?case by simp
next
  case (2 attr calculator rest item self)
  from "2.prems"(1) obtain vals where v: "calculate calculator item = Inr vals"
    and r: "calculate_all rest item (self\<lparr>state := (state self)(attr := vals)\<rparr>) = Inr self'"
    by (cases "calculate calculator item") simp_all
  from "2.prems"(2) have d: "distinct (keys rest)" and a: "attr \<notin> set (keys rest)"
    by (simp_all add: keys_def)
  from "2.IH"[OF v r d] have
    ih1: "\<forall>(calc, c) \<in> set rest. calculate c item = Inr (state self' calc)" and
    ih2: "\<forall>calc. calc \<notin> set (keys rest) \<longrightarrow>
            state self' calc = state (self\<lparr>state := (state self)(attr := vals)\<rparr>) calc" and
    ih3: "properties self' = properties (self\<lparr>state := (state self)(attr := vals)\<rparr>)"
    by simp_all
  from ih2 a have "state self' attr = vals" by simp
  with v have here: "calculate calculator item = Inr (state self' attr)" by simp
  from ih2 have other: "\<forall>calc. calc \<notin> set (keys ((attr, calculator) # rest)) \<longrightarrow>
      state self' calc = state self calc" by (simp add: keys_def)
  from here ih1 other ih3 show ?case by simp
qed

lemma copy_group_fields_result:
  assumes "copy_group_fields names item self = Inr self'"
  shows "state self' = state self \<and> group_by self' = group_by self \<and>
         (\<forall>name. name \<in> set names \<or> properties self name \<noteq> None \<longrightarrow> properties self' name \<noteq> None)"
  using assms
proof (induction names item self rule: copy_group_fields.induct)
  case (1 item self)
  then show ?case by simp
next
  case (2 attr rest item self)
  from "2.prems" obtain v where v: "getfield (item_fields item) attr = Inr v"
    and r: "copy_group_fields rest item (self\<lparr>properties := (properties self)(attr \<mapsto> v)\<rparr>) = Inr self'"
    by (cases "getfield (item_fields item) attr") simp_all
  from "2.IH"[OF v r] show ?case by auto
qed

lemma doc_calculate_well_formed:
  assumes "doc_calculate cls self item = Inr self'"
    and "distinct (keys (cls_calculators cls))"
    and "\<forall>name \<in> set (cls_group_by cls). name \<in> set (group_by self) \<or> properties self name \<noteq> None"
  shows "well_formed cls self'"
proof -
  from assms(1) obtain self1 self2 where
    s1: "calculate_all (cls_calculators cls) item self = Inr self1" and
    s2: "copy_group_fields (group_by self1) item (self1\<lparr>doc_id := Some (get_id item)\<rparr>) = Inr self2" and
    s3: "self' = self2\<lparr>group_by := cls_group_by cls\<rparr>"
    by (auto simp: doc_calculate_def split: sum.splits)
  from calculate_all_state[OF s1 assms(2)] have
    c1: "\<forall>(calc, c) \<in> set (cls_calculators cls). calculate c item = Inr (state self1 calc)" and
    c3: "properties self1 = properties self" by simp_all
  from s1 have g1: "group_by self1 = group_by self" by (rule calculate_all_group_by)
  from copy_group_fields_result[OF s2] have
    st: "state self2 = state self1" and
    pr: "\<forall>name. name \<in> set (group_by self1) \<or> properties self1 name \<noteq> None \<longrightarrow>
           properties self2 name \<noteq> None" by simp_all
  have emitters: "emitter_attr (klass c) e \<noteq> None"
    if "(calc, c) \<in> set (cls_calculators cls)" "e \<in> set (keys (state self' calc))" for calc c e
  proof -
    from c1 that(1) have "calculate c item = Inr (state self1 calc)" by auto
    moreover from that(2) s3 st have "e \<in> set (keys (state self1 calc))" by simp
    ultimately show ?thesis by (rule calculate_keys)
  qed
  have groups: "properties self' name \<noteq> None" if "name \<in> set (group_by self')" for name
  proof -
    from that s3 have "name \<in> set (cls_group_by cls)" by simp
    with assms(3) have "name \<in> set (group_by self) \<or> properties self name \<noteq> None" by simp
    with g1 c3 have "name \<in> set (group_by self1) \<or> properties self1 name \<noteq> None" by simp
    with pr have "properties self2 name \<noteq> None" by blast
    with s3 show ?thesis by simp
  qed
  from emitters groups show ?thesis unfolding well_formed_def by blast
qed

lemma new_document_calculate_well_formed:
  assumes "doc_calculate cls (new_document cls indicator_id) item = Inr self'"
    and "distinct (keys (cls_calculators cls))"
  shows "well_formed cls self'"
  using assms(1,2)
proof (rule doc_calculate_well_formed)
  show "\<forall>name \<in> set (cls_group_by cls).
      name \<in> set (group_by (new_document cls indicator_id)) \<or>
      properties (new_document cls indicator_id) name \<noteq> None"
    by (simp add: new_document_def)
qed

end
